theory Spec2Isabelle
  imports Complex_Main "HOL-Library.AList"
begin

section \<open>Shared helpers\<close>

text \<open>
  JavaScript renders a non-negative integer in a template literal in decimal,
  without leading zeros. \<open>dec\<close> is that rendering; it is used by
  \<open>generateClientId\<close>, by the log line of \<open>broadcast\<close> and by the
  \<open>trainingData\<close> field written by \<open>startTraining\<close>.
\<close>

definition digit_char :: "nat \<Rightarrow> char" where
  "digit_char d = char_of (48 + d)"

fun dec :: "nat \<Rightarrow> string" where
  "dec n = (if n < 10 then [digit_char n] else dec (n div 10) @ [digit_char (n mod 10)])"

declare dec.simps [simp del]

text \<open>
  A JavaScript \<open>Map\<close> is modelled as an association list in insertion order:
  \<open>Map.get\<close> is \<open>map_of\<close>, \<open>Map.set\<close> is \<open>AList.update\<close> (an existing key
  keeps its position, a new key goes last), \<open>Map.delete\<close> is \<open>AList.delete\<close>.
\<close>

definition keys :: "('k \<times> 'v) list \<Rightarrow> 'k set" where
  "keys al = fst ` set al"

text \<open>What a JavaScript function call evaluates to, as far as this development needs it.\<close>

datatype js_value = Undefined | Boolean bool | Number nat

section \<open>WebSocketService (src/server/services/ai-training.ts, lines 292--579)\<close>

datatype ready_state = CONNECTING | OPEN | CLOSING | CLOSED

text \<open>
  The transport of one connection. \<open>readyState\<close> is the field the service reads;
  \<open>sendThrows\<close> says whether \<open>JSON.stringify\<close> followed by \<open>ws.send\<close> throws on
  this transport, the event the \<open>try\<close>/\<open>catch\<close> blocks of the service are written for.
\<close>

record WebSocket =
  readyState :: ready_state
  sendThrows :: bool

text \<open>
  The payload is opaque to the service and kept as a flat JSON object of text fields; the timestamp is the value of
  \<open>Date.now()\<close> behind \<open>new Date().toISOString()\<close>, in milliseconds.
\<close>

record WebSocketMessage =
  type_msg :: string
  data :: "(string \<times> string) list"
  timestamp :: nat

record ConnectedClient =
  ws :: WebSocket
  id_client :: string
  subscriptions :: "string list"
  lastPing :: nat

type_synonym clients = "(string \<times> ConnectedClient) list"

text \<open>\<open>!channel\<close>: the optional parameter is falsy when it is absent or the empty string.\<close>

definition falsy :: "string option \<Rightarrow> bool" where
  "falsy channel = (case channel of None \<Rightarrow> True | Some c \<Rightarrow> c = [])"

text \<open>\<open>client.subscriptions.has(c)\<close> on the \<open>Set\<close> of subscribed channels.\<close>

definition has :: "string list \<Rightarrow> string \<Rightarrow> bool" where
  "has subs c = (c \<in> set subs)"

text \<open>
  What one call of \<open>broadcast\<close> does: the successful \<open>ws.send\<close> calls in order, the
  final value of the local \<open>sentCount\<close>, the lines written to the console, and the
  value the call evaluates to.
\<close>

record broadcast_result =
  sent :: "(ConnectedClient \<times> WebSocketMessage) list"
  sentCount :: nat
  console :: "string list"
  returned :: js_value

text \<open>The body of \<open>this.clients.forEach\<close> in \<open>broadcast\<close>, for one client.\<close>

definition broadcast_client ::
  "WebSocketMessage \<Rightarrow> string option \<Rightarrow> ConnectedClient \<Rightarrow> broadcast_result \<Rightarrow> broadcast_result" where
  "broadcast_client message channel client r =
     (if readyState (ws client) = OPEN then
        if falsy channel \<or> has (subscriptions client) (the channel)
           \<or> has (subscriptions client) ''all'' then
          if sendThrows (ws client) then
            r\<lparr>console := console r @ [''Error sending message to client '' @ id_client client @ '':'']\<rparr>
          else
            r\<lparr>sent := sent r @ [(client, message)], sentCount := sentCount r + 1\<rparr>
        else r
      else r)"

fun broadcast_loop ::
  "WebSocketMessage \<Rightarrow> string option \<Rightarrow> clients \<Rightarrow> broadcast_result \<Rightarrow> broadcast_result" where
  "broadcast_loop message channel [] r = r"
| "broadcast_loop message channel ((k, client) # rest) r =
     broadcast_loop message channel rest (broadcast_client message channel client r)"

text \<open>
  \<open>broadcast(type, data, channel?)\<close>. The function has no \<open>return\<close> statement: the
  count only reaches the console.
\<close>

definition broadcast ::
  "string \<Rightarrow> (string \<times> string) list \<Rightarrow> string option \<Rightarrow> nat \<Rightarrow> clients \<Rightarrow> broadcast_result" where
  "broadcast type' data' channel now cs =
     (let message = \<lparr>type_msg = type', data = data', timestamp = now\<rparr>;
          r = broadcast_loop message channel cs
                \<lparr>sent = [], sentCount = 0, console = [], returned = Undefined\<rparr>
      in r\<lparr>console := console r @
            [''Broadcasted '' @ type' @ '' message to '' @ dec (sentCount r) @ '' clients''
               @ (if falsy channel then [] else '' on channel '' @ the channel)]\<rparr>)"

text \<open>The clients a broadcast reaches: open transport, matching channel, send not failing.\<close>

definition receives :: "string option \<Rightarrow> ConnectedClient \<Rightarrow> bool" where
  "receives channel client =
     (readyState (ws client) = OPEN \<and> \<not> sendThrows (ws client) \<and>
      (falsy channel \<or> has (subscriptions client) (the channel)
        \<or> has (subscriptions client) ''all''))"

text \<open>
  \<open>sendToClient(clientId, message)\<close>. The partial message is given field by field; a
  missing or empty \<open>type\<close> becomes \<open>unknown\<close>, a missing \<open>data\<close> the empty object, a
  missing timestamp the current time. The result is the boolean the function returns
  and the message handed to \<open>ws.send\<close>, if any.
\<close>

datatype ws_effect =
    Send ConnectedClient WebSocketMessage
  | Ping ConnectedClient
  | Terminate ConnectedClient

definition sendToClient ::
  "string \<Rightarrow> string option \<Rightarrow> (string \<times> string) list option \<Rightarrow> nat option \<Rightarrow> nat \<Rightarrow> clients
     \<Rightarrow> bool \<times> ws_effect list" where
  "sendToClient clientId mtype mdata mtime now cs =
     (case map_of cs clientId of
        None \<Rightarrow> (False, [])
      | Some client \<Rightarrow>
          if readyState (ws client) \<noteq> OPEN then (False, [])
          else
            let fullMessage =
                  \<lparr>type_msg = (if falsy mtype then ''unknown'' else the mtype),
                   data = (case mdata of None \<Rightarrow> [] | Some d \<Rightarrow> d),
                   timestamp = (case mtime of None \<Rightarrow> now | Some t \<Rightarrow> t)\<rparr>
            in if sendThrows (ws client) then (False, [])
               else (True, [Send client fullMessage]))"

text \<open>
  \<open>generateClientId()\<close>: \<open>client_\<close>, the decimal \<open>Date.now()\<close>, an underscore, and
  \<open>Math.random().toString(36).substring(7)\<close>. The base-36 rendering of the random draw
  is the argument \<open>rs\<close>; \<open>substring(7)\<close> drops its first seven characters.
\<close>

definition generateClientId :: "nat \<Rightarrow> string \<Rightarrow> string" where
  "generateClientId now rs = ''client_'' @ dec now @ ''_'' @ drop 7 rs"

text \<open>
  The \<open>connection\<close> handler of \<open>initialize\<close>: no lookup of the generated id in
  \<open>this.clients\<close> precedes \<open>this.clients.set\<close>. The clock reads of the handler are
  taken as one value \<open>now\<close>. The result is the id, the new registry and the welcome
  message if it could be sent.
\<close>

definition on_connection ::
  "WebSocket \<Rightarrow> nat \<Rightarrow> string \<Rightarrow> clients \<Rightarrow> string \<times> clients \<times> ws_effect list" where
  "on_connection wsock now rs cs =
     (let clientId = generateClientId now rs;
          client = \<lparr>ws = wsock, id_client = clientId, subscriptions = [], lastPing = now\<rparr>;
          cs' = AList.update clientId client cs;
          welcome = sendToClient clientId (Some ''connection'')
                      (Some [(''clientId'', clientId),
                             (''message'', ''Connected to CMLRE Ocean Platform''),
                             (''timestamp'', dec now)]) None now cs'
      in (clientId, cs', snd welcome))"

text \<open>The \<open>pong\<close>, \<open>close\<close> and \<open>error\<close> handlers installed for a connection.\<close>

definition on_pong :: "string \<Rightarrow> nat \<Rightarrow> clients \<Rightarrow> clients" where
  "on_pong clientId now cs =
     (case map_of cs clientId of
        None \<Rightarrow> cs
      | Some client \<Rightarrow> AList.update clientId (client\<lparr>lastPing := now\<rparr>) cs)"

definition on_close :: "string \<Rightarrow> clients \<Rightarrow> clients" where
  "on_close clientId cs = AList.delete clientId cs"

definition on_error :: "string \<Rightarrow> clients \<Rightarrow> clients" where
  "on_error clientId cs = AList.delete clientId cs"

text \<open>
  \<open>handleClientMessage\<close> for the messages \<open>subscribe\<close> and \<open>unsubscribe\<close> (with
  \<open>channels\<close> present and an array, or not) and \<open>ping\<close>; any other type ends in the
  \<open>default\<close> branch, which only logs. The branch \<open>request_data\<close>, which sends generated
  sensor values to the asking client and leaves the registry alone, is not modelled.
  \<open>Set.add\<close> keeps the first insertion, \<open>Set.delete\<close> removes the element.
\<close>

datatype client_message =
    Subscribe "string list option"
  | Unsubscribe "string list option"
  | PingMessage
  | OtherMessage string

definition set_add :: "string \<Rightarrow> string list \<Rightarrow> string list" where
  "set_add c subs = (if c \<in> set subs then subs else subs @ [c])"

definition set_delete :: "string \<Rightarrow> string list \<Rightarrow> string list" where
  "set_delete c subs = removeAll c subs"

definition handleClientMessage ::
  "string \<Rightarrow> client_message \<Rightarrow> nat \<Rightarrow> clients \<Rightarrow> clients \<times> ws_effect list" where
  "handleClientMessage clientId message now cs =
     (case map_of cs clientId of
        None \<Rightarrow> (cs, [])
      | Some client \<Rightarrow>
          (case message of
             Subscribe None \<Rightarrow> (cs, [])
           | Subscribe (Some channels) \<Rightarrow>
               let client' = client\<lparr>subscriptions := foldl (\<lambda>subs c. set_add c subs) (subscriptions client) channels\<rparr>;
                   cs' = AList.update clientId client' cs
               in (cs', snd (sendToClient clientId (Some ''subscription_confirmed'')
                               (Some (map (\<lambda>c. (''channels'', c)) (subscriptions client'))) None now cs'))
           | Unsubscribe None \<Rightarrow> (cs, [])
           | Unsubscribe (Some channels) \<Rightarrow>
               (AList.update clientId
                  (client\<lparr>subscriptions := foldl (\<lambda>subs c. set_delete c subs) (subscriptions client) channels\<rparr>) cs,
                [])
           | PingMessage \<Rightarrow>
               (cs, snd (sendToClient clientId (Some ''pong'') (Some [(''timestamp'', dec now)]) None now cs))
           | OtherMessage t \<Rightarrow> (cs, [])))"

text \<open>
  One run of the \<open>setInterval\<close> callback of \<open>startHeartbeat\<close>, at clock value \<open>now\<close>.
  \<open>heartbeat_client\<close> is the body of \<open>forEach\<close> for the entry \<open>(clientId, client)\<close>;
  the subtraction is on integers, as in the source.
\<close>

definition heartbeat_client ::
  "nat \<Rightarrow> string \<Rightarrow> ConnectedClient \<Rightarrow> clients \<times> ws_effect list \<Rightarrow> clients \<times> ws_effect list" where
  "heartbeat_client now clientId client st =
     (if readyState (ws client) = OPEN then
        if int now - int (lastPing client) > 30000 then
          (AList.delete clientId (fst st), snd st @ [Terminate client])
        else
          (fst st, snd st @ [Ping client])
      else (AList.delete clientId (fst st), snd st))"

fun heartbeat_loop ::
  "nat \<Rightarrow> clients \<Rightarrow> clients \<times> ws_effect list \<Rightarrow> clients \<times> ws_effect list" where
  "heartbeat_loop now [] st = st"
| "heartbeat_loop now ((clientId, client) # rest) st =
     heartbeat_loop now rest (heartbeat_client now clientId client st)"

definition heartbeat :: "nat \<Rightarrow> clients \<Rightarrow> clients \<times> ws_effect list" where
  "heartbeat now cs = heartbeat_loop now cs (cs, [])"

definition getConnectedClientsCount :: "clients \<Rightarrow> nat" where
  "getConnectedClientsCount cs = length cs"

definition getClientSubscriptions :: "string \<Rightarrow> clients \<Rightarrow> string list" where
  "getClientSubscriptions clientId cs =
     (case map_of cs clientId of None \<Rightarrow> [] | Some client \<Rightarrow> subscriptions client)"

section \<open>AITrainingService (src/server/services/ai-training.ts, lines 1--292)\<close>

datatype status = initializing | training | validating | completed | failed

record TrainingProgress =
  modelId :: string
  epoch :: nat
  totalEpochs :: nat
  loss :: real
  accuracy :: real
  validationLoss :: real
  validationAccuracy :: real
  learningRate :: real
  estimatedTimeRemaining :: real
  status :: status
  currentBatch :: nat
  totalBatches :: nat

text \<open>
  The argument of \<open>startTraining\<close>. Counts are natural numbers and rates are reals:
  JavaScript numbers are idealised, and the metric arithmetic below is over the reals.
\<close>

record modelConfig =
  name :: string
  type_cfg :: string
  architecture :: string
  epochs :: nat
  batchSize :: nat
  learningRate_cfg :: real
  datasetSize :: nat

record model_parameters =
  architecture_p :: string
  epochs_p :: nat
  batchSize_p :: nat
  learningRate_p :: real
  optimizer :: string

text \<open>
  The columns of \<open>ai_models\<close> (src/unnamed/part_000, lines 92--106) that
  \<open>insertAiModelSchema\<close> keeps, and the row with its generated \<open>id\<close>. \<open>f1Score\<close> is
  the one number of the service that a division produces; \<open>None\<close> stands for the
  value JavaScript gives a division by zero (\<open>NaN\<close>, or an infinity).
\<close>

record InsertAiModel =
  name_model :: string
  type_model :: string
  version :: string
  accuracy_model :: real
  precision :: real
  recall :: real
  f1Score :: "real option"
  trainingData :: string
  isActive :: bool
  parameters :: model_parameters

record AiModel = InsertAiModel +
  id_model :: string

text \<open>\<open>Partial<InsertAiModel>\<close>: each column is present in the object or not.\<close>

record AiModelUpdate =
  upd_name :: "string option"
  upd_type :: "string option"
  upd_version :: "string option"
  upd_accuracy :: "real option"
  upd_precision :: "real option"
  upd_recall :: "real option"
  upd_f1Score :: "real option option"
  upd_trainingData :: "string option"
  upd_isActive :: "bool option"
  upd_parameters :: "model_parameters option"

type_synonym store = "(string \<times> AiModel) list"

datatype error = NotFound

text \<open>
  Modelled from the spec: the module \<open>../storage\<close> (the ModelStore) is not among the
  sources. Section 6 of the specification gives its interface:
  \<open>createModel(fields) -> ModelRecord\<close> (assigns id), \<open>updateModel(id, partialFields)\<close>,
  which fails with \<open>NotFound\<close> if the id is unknown, and \<open>getModel(id)\<close>. The id the
  store assigns is the argument \<open>newId\<close>.
\<close>

definition createAiModel :: "InsertAiModel \<Rightarrow> string \<Rightarrow> store \<Rightarrow> AiModel \<times> store" where
  "createAiModel insertModel newId st =
     (InsertAiModel.extend insertModel (AiModel.fields newId),
      AList.update newId (InsertAiModel.extend insertModel (AiModel.fields newId)) st)"

definition apply_update :: "AiModelUpdate \<Rightarrow> AiModel \<Rightarrow> AiModel" where
  "apply_update u m =
     m\<lparr>name_model := (case upd_name u of None \<Rightarrow> name_model m | Some v \<Rightarrow> v),
       type_model := (case upd_type u of None \<Rightarrow> type_model m | Some v \<Rightarrow> v),
       version := (case upd_version u of None \<Rightarrow> version m | Some v \<Rightarrow> v),
       accuracy_model := (case upd_accuracy u of None \<Rightarrow> accuracy_model m | Some v \<Rightarrow> v),
       precision := (case upd_precision u of None \<Rightarrow> precision m | Some v \<Rightarrow> v),
       recall := (case upd_recall u of None \<Rightarrow> recall m | Some v \<Rightarrow> v),
       f1Score := (case upd_f1Score u of None \<Rightarrow> f1Score m | Some v \<Rightarrow> v),
       trainingData := (case upd_trainingData u of None \<Rightarrow> trainingData m | Some v \<Rightarrow> v),
       isActive := (case upd_isActive u of None \<Rightarrow> isActive m | Some v \<Rightarrow> v),
       parameters := (case upd_parameters u of None \<Rightarrow> parameters m | Some v \<Rightarrow> v)\<rparr>"

definition updateAiModel :: "string \<Rightarrow> AiModelUpdate \<Rightarrow> store \<Rightarrow> error + store" where
  "updateAiModel mid u st =
     (case map_of st mid of
        None \<Rightarrow> Inl NotFound
      | Some m \<Rightarrow> Inr (AList.update mid (apply_update u m) st))"

definition getAiModel :: "string \<Rightarrow> store \<Rightarrow> AiModel option" where
  "getAiModel mid st = map_of st mid"

text \<open>
  The draws of \<open>Math.random()\<close> that one timer callback can consume, in the order of
  the source: \<open>generateLoss\<close>, \<open>generateAccuracy\<close>, the two validation metrics of the
  batch branch, and the two draws of \<open>finalizeModel\<close>. Each lies in \<open>[0, 1)\<close>.
\<close>

record rnd =
  rnd_loss :: real
  rnd_acc :: real
  rnd_valLoss :: real
  rnd_valAcc :: real
  rnd_precision :: real
  rnd_recall :: real

definition unit_draw :: "real \<Rightarrow> bool" where
  "unit_draw r = (0 \<le> r \<and> r < 1)"

definition generateLoss :: "real \<Rightarrow> string \<Rightarrow> real \<Rightarrow> real" where
  "generateLoss progress modelType random =
     (let baseDecay = exp (- progress * 3);
          noise = (random - 0.5) * 0.1
      in if modelType = ''CNN'' then 2.5 * baseDecay + 0.1 + noise
         else if modelType = ''LSTM'' then 3.0 * baseDecay + 0.15 + noise
         else if modelType = ''Transformer'' then 2.8 * baseDecay + 0.12 + noise
         else 2.5 * baseDecay + 0.1 + noise)"

definition generateAccuracy :: "real \<Rightarrow> string \<Rightarrow> real \<Rightarrow> real" where
  "generateAccuracy progress modelType random =
     (let baseGrowth = 1 - exp (- progress * 2.5);
          noise = (random - 0.5) * 0.02
      in if modelType = ''CNN'' then min 0.95 (0.3 + 0.65 * baseGrowth + noise)
         else if modelType = ''LSTM'' then min 0.92 (0.25 + 0.67 * baseGrowth + noise)
         else if modelType = ''Transformer'' then min 0.88 (0.2 + 0.68 * baseGrowth + noise)
         else min 0.95 (0.3 + 0.65 * baseGrowth + noise))"

text \<open>Division as JavaScript has it where the divisor can be zero: no real number results.\<close>

definition js_div :: "real \<Rightarrow> real \<Rightarrow> real option" where
  "js_div a b = (if b = 0 then None else Some (a / b))"

definition finalPrecision :: "TrainingProgress \<Rightarrow> rnd \<Rightarrow> real" where
  "finalPrecision progress r = accuracy progress * (0.95 + rnd_precision r * 0.05)"

definition finalRecall :: "TrainingProgress \<Rightarrow> rnd \<Rightarrow> real" where
  "finalRecall progress r = accuracy progress * (0.93 + rnd_recall r * 0.07)"

definition finalF1 :: "TrainingProgress \<Rightarrow> rnd \<Rightarrow> real option" where
  "finalF1 progress r =
     js_div (2 * (finalPrecision progress r * finalRecall progress r))
            (finalPrecision progress r + finalRecall progress r)"

text \<open>The object literal that \<open>finalizeModel\<close> passes to \<open>storage.updateAiModel\<close>.\<close>

definition finalUpdate :: "TrainingProgress \<Rightarrow> rnd \<Rightarrow> AiModelUpdate" where
  "finalUpdate progress r =
     \<lparr>upd_name = None, upd_type = None, upd_version = None,
      upd_accuracy = Some (accuracy progress),
      upd_precision = Some (finalPrecision progress r),
      upd_recall = Some (finalRecall progress r),
      upd_f1Score = Some (finalF1 progress r),
      upd_trainingData = None,
      upd_isActive = Some True,
      upd_parameters = None\<rparr>"

definition finalizeModel :: "string \<Rightarrow> TrainingProgress \<Rightarrow> rnd \<Rightarrow> store \<Rightarrow> error + store" where
  "finalizeModel mid progress r st = updateAiModel mid (finalUpdate progress r) st"

text \<open>
  What \<open>this.emit\<close> hands to the listeners. The progress object is passed by reference
  and mutated later; an event records it as it is when the event is emitted.
\<close>

datatype emitted_event =
    trainingUpdate TrainingProgress
  | trainingComplete string TrainingProgress
  | trainingStopped string TrainingProgress

text \<open>
  The callbacks the service registers with the timers of the runtime: the
  \<open>setInterval\<close> callback of \<open>simulateTraining\<close>, which closes over the model id and
  \<open>config.type\<close>, and the \<open>setTimeout\<close> callback of the validation phase.
\<close>

datatype timer_task = TrainingInterval string string | ValidationTimeout string

text \<open>
  The state the service works on: its two maps, the external store, the live timers of
  the runtime with the next free handle, the events emitted so far, and the progress
  objects handed to \<open>websocketService.broadcast\<close>.
\<close>

record world =
  activeTraining :: "(string \<times> nat) list"
  trainingProgress :: "(string \<times> TrainingProgress) list"
  storage :: store
  timers :: "(nat \<times> timer_task) list"
  nextTimer :: nat
  emitted :: "emitted_event list"
  broadcasts :: "TrainingProgress list"

definition init_world :: world where
  "init_world = \<lparr>activeTraining = [], trainingProgress = [], storage = [], timers = [],
                 nextTimer = 0, emitted = [], broadcasts = []\<rparr>"

text \<open>\<open>setInterval\<close> and \<open>setTimeout\<close> return a new handle; \<open>clearInterval\<close> removes it.\<close>

definition setTimer :: "timer_task \<Rightarrow> world \<Rightarrow> nat \<times> world" where
  "setTimer task s =
     (nextTimer s,
      s\<lparr>timers := AList.update (nextTimer s) task (timers s), nextTimer := nextTimer s + 1\<rparr>)"

definition clearInterval :: "nat \<Rightarrow> world \<Rightarrow> world" where
  "clearInterval h s = s\<lparr>timers := AList.delete h (timers s)\<rparr>"

text \<open>
  \<open>simulateTraining\<close> up to the registration of the interval. The progress object
  that the callbacks close over is the one stored under \<open>modelId\<close>; the entry is never
  replaced, so the callbacks below read and write it through the map.
\<close>

definition simulateTraining :: "string \<Rightarrow> modelConfig \<Rightarrow> world \<Rightarrow> world" where
  "simulateTraining mid config s =
     (case map_of (trainingProgress s) mid of
        None \<Rightarrow> s
      | Some progress \<Rightarrow>
          let progress' = progress\<lparr>status := training\<rparr>;
              s1 = s\<lparr>trainingProgress := AList.update mid progress' (trainingProgress s),
                     emitted := emitted s @ [trainingUpdate progress'],
                     broadcasts := broadcasts s @ [progress']\<rparr>;
              s2 = snd (setTimer (TrainingInterval mid (type_cfg config)) s1)
          in s2\<lparr>activeTraining := AList.update mid (nextTimer s1) (activeTraining s2)\<rparr>)"

text \<open>
  \<open>startTraining\<close>: the model record, the initial progress, the start of the
  simulation. \<open>Math.ceil(datasetSize / batchSize)\<close> is taken on the reals.
\<close>

definition modelData :: "modelConfig \<Rightarrow> InsertAiModel" where
  "modelData modelConfig =
     \<lparr>name_model = name modelConfig,
      type_model = type_cfg modelConfig,
      version = ''v1.0.0'',
      accuracy_model = 0,
      precision = 0,
      recall = 0,
      f1Score = Some 0,
      trainingData = ''Training on '' @ dec (datasetSize modelConfig) @ '' samples'',
      isActive = False,
      parameters = \<lparr>architecture_p = architecture modelConfig,
                    epochs_p = epochs modelConfig,
                    batchSize_p = batchSize modelConfig,
                    learningRate_p = learningRate_cfg modelConfig,
                    optimizer = ''Adam''\<rparr>\<rparr>"

definition initialProgress :: "modelConfig \<Rightarrow> string \<Rightarrow> TrainingProgress" where
  "initialProgress modelConfig mid =
     \<lparr>modelId = mid,
      epoch = 0,
      totalEpochs = epochs modelConfig,
      loss = 0,
      accuracy = 0,
      validationLoss = 0,
      validationAccuracy = 0,
      learningRate = learningRate_cfg modelConfig,
      estimatedTimeRemaining = real (epochs modelConfig) * 120,
      status = initializing,
      currentBatch = 0,
      totalBatches = nat \<lceil>real (datasetSize modelConfig) / real (batchSize modelConfig)\<rceil>\<rparr>"

definition startTraining :: "modelConfig \<Rightarrow> string \<Rightarrow> world \<Rightarrow> string \<times> world" where
  "startTraining modelConfig newId s =
     (let created = createAiModel (modelData modelConfig) newId (storage s);
          model = fst created;
          progress = initialProgress modelConfig (id_model model);
          s1 = s\<lparr>storage := snd created,
                 trainingProgress := AList.update (id_model model) progress (trainingProgress s)\<rparr>
      in (id_model model, simulateTraining (id_model model) modelConfig s1))"

text \<open>The \<open>if\<close> branch of the interval callback: one more batch, new metrics.\<close>

definition batchDuration :: "TrainingProgress \<Rightarrow> real" where
  "batchDuration progress = 120000 / real (totalBatches progress)"

definition batch_step :: "TrainingProgress \<Rightarrow> string \<Rightarrow> rnd \<Rightarrow> TrainingProgress" where
  "batch_step progress modelType r =
     (let p1 = progress\<lparr>currentBatch := currentBatch progress + 1\<rparr>;
          epochProgress = real (currentBatch p1) / real (totalBatches p1);
          overallProgress = (real (epoch p1) + epochProgress) / real (totalEpochs p1);
          l = generateLoss overallProgress modelType (rnd_loss r);
          a = generateAccuracy overallProgress modelType (rnd_acc r);
          batchesRemaining =
            (int (totalEpochs p1) - int (epoch p1) - 1) * int (totalBatches p1)
              + (int (totalBatches p1) - int (currentBatch p1))
      in p1\<lparr>loss := l,
            accuracy := a,
            validationLoss := l + rnd_valLoss r * 0.1,
            validationAccuracy := max 0 (a - rnd_valAcc r * 0.05),
            estimatedTimeRemaining := real_of_int batchesRemaining * (batchDuration p1 / 1000)\<rparr>)"

text \<open>
  The interval callback for the job \<open>mid\<close>, registered under the handle \<open>h\<close>. In the
  completion branch the \<open>await\<close> of \<open>finalizeModel\<close> is taken as one step with the
  rest of the callback; when the store rejects the update the callback ends there
  and \<open>trainingComplete\<close> is not emitted.
\<close>

definition trainingTick :: "string \<Rightarrow> string \<Rightarrow> nat \<Rightarrow> rnd \<Rightarrow> world \<Rightarrow> world" where
  "trainingTick mid modelType h r s =
     (case map_of (trainingProgress s) mid of
        None \<Rightarrow> s
      | Some progress \<Rightarrow>
          if currentBatch progress < totalBatches progress then
            s\<lparr>trainingProgress := AList.update mid (batch_step progress modelType r) (trainingProgress s),
              emitted := emitted s @ [trainingUpdate (batch_step progress modelType r)]\<rparr>
          else if epoch progress + 1 \<ge> totalEpochs progress then
            (let p2 = progress\<lparr>epoch := epoch progress + 1, currentBatch := 0,
                               status := completed, estimatedTimeRemaining := 0\<rparr>;
                 s1 = clearInterval h s;
                 s2 = s1\<lparr>activeTraining := AList.delete mid (activeTraining s1),
                         trainingProgress := AList.update mid p2 (trainingProgress s1)\<rparr>
             in case finalizeModel mid p2 r (storage s2) of
                  Inl e \<Rightarrow> s2
                | Inr st \<Rightarrow> s2\<lparr>storage := st, emitted := emitted s2 @ [trainingComplete mid p2]\<rparr>)
          else
            (let p2 = progress\<lparr>epoch := epoch progress + 1, currentBatch := 0,
                               status := validating\<rparr>;
                 s1 = s\<lparr>trainingProgress := AList.update mid p2 (trainingProgress s),
                        emitted := emitted s @ [trainingUpdate p2]\<rparr>
             in snd (setTimer (ValidationTimeout mid) s1)))"

text \<open>The \<open>setTimeout\<close> callback that ends the validation phase.\<close>

definition validationDone :: "string \<Rightarrow> world \<Rightarrow> world" where
  "validationDone mid s =
     (case map_of (trainingProgress s) mid of
        None \<Rightarrow> s
      | Some progress \<Rightarrow>
          s\<lparr>trainingProgress := AList.update mid (progress\<lparr>status := training\<rparr>) (trainingProgress s),
            emitted := emitted s @ [trainingUpdate (progress\<lparr>status := training\<rparr>)]\<rparr>)"

definition getTrainingProgress :: "string \<Rightarrow> world \<Rightarrow> TrainingProgress option" where
  "getTrainingProgress mid s = map_of (trainingProgress s) mid"

definition getAllActiveTraining :: "world \<Rightarrow> TrainingProgress list" where
  "getAllActiveTraining s = filter (\<lambda>p. status p \<noteq> completed) (map snd (trainingProgress s))"

definition stopTraining :: "string \<Rightarrow> world \<Rightarrow> bool \<times> world" where
  "stopTraining mid s =
     (case map_of (activeTraining s) mid of
        None \<Rightarrow> (False, s)
      | Some interval \<Rightarrow>
          let s1 = clearInterval interval s;
              s2 = s1\<lparr>activeTraining := AList.delete mid (activeTraining s1)\<rparr>
          in case map_of (trainingProgress s2) mid of
               None \<Rightarrow> (True, s2)
             | Some progress \<Rightarrow>
                 (True,
                  s2\<lparr>trainingProgress := AList.update mid (progress\<lparr>status := failed\<rparr>) (trainingProgress s2),
                     emitted := emitted s2 @ [trainingStopped mid (progress\<lparr>status := failed\<rparr>)]\<rparr>))"

text \<open>
  What can happen to the service: a call of \<open>startTraining\<close> (the store assigns an id
  that it does not hold yet), the runtime firing a live timer, a call of
  \<open>stopTraining\<close>. Firing a handle that is not live does nothing: a cleared interval
  is never invoked again, and a timeout fires once. No clock is modelled: a run is any
  order in which the live timers fire, which includes every order the delays of the
  source (\<open>batchDuration\<close> for the interval, 5000 ms for the timeout) allow.
\<close>

datatype action = Start modelConfig string | Fire nat rnd | Stop string

definition fire :: "nat \<Rightarrow> rnd \<Rightarrow> world \<Rightarrow> world" where
  "fire h r s =
     (case map_of (timers s) h of
        None \<Rightarrow> s
      | Some (TrainingInterval mid mtype) \<Rightarrow> trainingTick mid mtype h r s
      | Some (ValidationTimeout mid) \<Rightarrow> validationDone mid (clearInterval h s))"

fun step :: "action \<Rightarrow> world \<Rightarrow> world" where
  "step (Start modelConfig newId) s =
     (if newId \<in> keys (storage s) then s else snd (startTraining modelConfig newId s))"
| "step (Fire h r) s = fire h r s"
| "step (Stop mid) s = snd (stopTraining mid s)"

fun run :: "action list \<Rightarrow> world \<Rightarrow> world" where
  "run [] s = s"
| "run (a # as) s = run as (step a s)"

text \<open>The events of one job, and what the ordering claims read off an event.\<close>

fun ev_progress :: "emitted_event \<Rightarrow> TrainingProgress" where
  "ev_progress (trainingUpdate p) = p"
| "ev_progress (trainingComplete mid p) = p"
| "ev_progress (trainingStopped mid p) = p"

fun ev_job :: "emitted_event \<Rightarrow> string" where
  "ev_job (trainingUpdate p) = modelId p"
| "ev_job (trainingComplete mid p) = mid"
| "ev_job (trainingStopped mid p) = mid"

definition ev_pair :: "emitted_event \<Rightarrow> nat \<times> nat" where
  "ev_pair e = (epoch (ev_progress e), currentBatch (ev_progress e))"

definition ev_terminal :: "emitted_event \<Rightarrow> bool" where
  "ev_terminal e = (status (ev_progress e) = completed \<or> status (ev_progress e) = failed)"

definition job_events :: "string \<Rightarrow> world \<Rightarrow> emitted_event list" where
  "job_events mid s = filter (\<lambda>e. ev_job e = mid) (emitted s)"

text \<open>The lexicographic order on (epoch, batch) pairs, strict and non-strict.\<close>

definition pair_less :: "nat \<times> nat \<Rightarrow> nat \<times> nat \<Rightarrow> bool" where
  "pair_less a b = (fst a < fst b \<or> (fst a = fst b \<and> snd a < snd b))"

definition pair_le :: "nat \<times> nat \<Rightarrow> nat \<times> nat \<Rightarrow> bool" where
  "pair_le a b = (fst a < fst b \<or> (fst a = fst b \<and> snd a \<le> snd b))"

section \<open>Derived notions and concrete scenarios\<close>

text \<open>
  What the heartbeat does with one client, read off \<open>heartbeat_client\<close>: a client is
  dropped when its transport is not open or its last pong is more than 30 seconds old.
\<close>

definition dead :: "nat \<Rightarrow> ConnectedClient \<Rightarrow> bool" where
  "dead now c = (readyState (ws c) \<noteq> OPEN \<or> int now - int (lastPing c) > 30000)"

definition heartbeat_effect :: "nat \<Rightarrow> ConnectedClient \<Rightarrow> ws_effect list" where
  "heartbeat_effect now c =
     (if readyState (ws c) = OPEN then
        if int now - int (lastPing c) > 30000 then [Terminate c] else [Ping c]
      else [])"

text \<open>The registry of property P3: \<open>c1\<close> subscribed to \<open>x\<close>, \<open>c2\<close> to \<open>all\<close>, \<open>c3\<close> to nothing.\<close>

definition open_ws :: WebSocket where
  "open_ws = \<lparr>readyState = OPEN, sendThrows = False\<rparr>"

definition P3_c1 :: ConnectedClient where
  "P3_c1 = \<lparr>ws = open_ws, id_client = ''c1'', subscriptions = [''x''], lastPing = 0\<rparr>"

definition P3_c2 :: ConnectedClient where
  "P3_c2 = \<lparr>ws = open_ws, id_client = ''c2'', subscriptions = [''all''], lastPing = 0\<rparr>"

definition P3_c3 :: ConnectedClient where
  "P3_c3 = \<lparr>ws = open_ws, id_client = ''c3'', subscriptions = [], lastPing = 0\<rparr>"

definition P3_clients :: clients where
  "P3_clients = [(''c1'', P3_c1), (''c2'', P3_c2), (''c3'', P3_c3)]"

text \<open>A registered client whose transport is closing: registered until its \<open>close\<close> event.\<close>

definition closing_client :: ConnectedClient where
  "closing_client =
     \<lparr>ws = \<lparr>readyState = CLOSING, sendThrows = False\<rparr>, id_client = ''c1'',
      subscriptions = [''x''], lastPing = 0\<rparr>"

text \<open>
  A registry for the heartbeat at clock value 31001: \<open>a\<close> last answered at 1000,
  \<open>b\<close> at 20000, and the transport of \<open>c\<close> is closed.
\<close>

definition hb_quiet :: ConnectedClient where
  "hb_quiet = \<lparr>ws = open_ws, id_client = ''a'', subscriptions = [], lastPing = 1000\<rparr>"

definition hb_live :: ConnectedClient where
  "hb_live = \<lparr>ws = open_ws, id_client = ''b'', subscriptions = [], lastPing = 20000\<rparr>"

definition hb_closed :: ConnectedClient where
  "hb_closed =
     \<lparr>ws = \<lparr>readyState = CLOSED, sendThrows = False\<rparr>, id_client = ''c'',
      subscriptions = [], lastPing = 31000\<rparr>"

definition hb_clients :: clients where
  "hb_clients = [(''a'', hb_quiet), (''b'', hb_live), (''c'', hb_closed)]"

section \<open>Invariants of the training service\<close>

text \<open>
  The position of a job, and the facts that hold in every state the service can
  reach. \<open>events_inv\<close>: a progress object is stored under its own id, no event of a
  job is ahead of the job, and the events of a job are in non-decreasing order.
  \<open>timers_inv\<close>: the entries of \<open>activeTraining\<close> are exactly the live interval
  timers, their jobs have a progress object whose status is neither \<open>completed\<close> nor
  \<open>failed\<close>, and handles are below the next free one. \<open>terminal_inv\<close>: a job with a
  \<open>completed\<close> or \<open>failed\<close> event has no active interval and still stands where that
  event left it. \<open>store_inv\<close>: every job has a model record.
\<close>

definition cur_pair :: "TrainingProgress \<Rightarrow> nat \<times> nat" where
  "cur_pair p = (epoch p, currentBatch p)"

definition events_inv :: "(string \<times> TrainingProgress) list \<Rightarrow> emitted_event list \<Rightarrow> bool" where
  "events_inv tp em \<longleftrightarrow>
     (\<forall>k p. map_of tp k = Some p \<longrightarrow> modelId p = k)
   \<and> (\<forall>e \<in> set em. \<exists>p. map_of tp (ev_job e) = Some p \<and> pair_le (ev_pair e) (cur_pair p))
   \<and> (\<forall>j. sorted_wrt pair_le (map ev_pair (filter (\<lambda>e. ev_job e = j) em)))"

definition timers_inv ::
  "(string \<times> nat) list \<Rightarrow> (nat \<times> timer_task) list \<Rightarrow> (string \<times> TrainingProgress) list \<Rightarrow> nat \<Rightarrow> bool" where
  "timers_inv ats tm tp nt \<longleftrightarrow>
     (\<forall>h j t. map_of tm h = Some (TrainingInterval j t) \<longrightarrow> map_of ats j = Some h)
   \<and> (\<forall>j h. map_of ats j = Some h \<longrightarrow>
         (\<exists>t. map_of tm h = Some (TrainingInterval j t))
         \<and> (\<exists>p. map_of tp j = Some p \<and> status p \<noteq> completed \<and> status p \<noteq> failed))
   \<and> (\<forall>h. map_of tm h \<noteq> None \<longrightarrow> h < nt)"

definition terminal_inv ::
  "(string \<times> nat) list \<Rightarrow> (string \<times> TrainingProgress) list \<Rightarrow> emitted_event list \<Rightarrow> bool" where
  "terminal_inv ats tp em \<longleftrightarrow>
     (\<forall>e \<in> set em. ev_terminal e \<longrightarrow>
        map_of ats (ev_job e) = None
        \<and> (\<exists>p. map_of tp (ev_job e) = Some p \<and> ev_pair e = cur_pair p))"

definition store_inv :: "(string \<times> TrainingProgress) list \<Rightarrow> store \<Rightarrow> bool" where
  "store_inv tp st \<longleftrightarrow> (\<forall>k. map_of tp k \<noteq> None \<longrightarrow> map_of st k \<noteq> None)"

definition world_inv :: "world \<Rightarrow> bool" where
  "world_inv s \<longleftrightarrow>
     events_inv (trainingProgress s) (emitted s)
   \<and> timers_inv (activeTraining s) (timers s) (trainingProgress s) (nextTimer s)
   \<and> terminal_inv (activeTraining s) (trainingProgress s) (emitted s)
   \<and> store_inv (trainingProgress s) (storage s)"

text \<open>The progress objects that the branches of the callbacks store.\<close>

definition started :: "modelConfig \<Rightarrow> string \<Rightarrow> TrainingProgress" where
  "started cfg j = (initialProgress cfg j)\<lparr>status := training\<rparr>"

definition completed_progress :: "TrainingProgress \<Rightarrow> TrainingProgress" where
  "completed_progress p =
     p\<lparr>epoch := epoch p + 1, currentBatch := 0, status := completed, estimatedTimeRemaining := 0\<rparr>"

definition validating_progress :: "TrainingProgress \<Rightarrow> TrainingProgress" where
  "validating_progress p = p\<lparr>epoch := epoch p + 1, currentBatch := 0, status := validating\<rparr>"


text \<open>
  Two configurations: two epochs of one batch, and scenario A of the specification
  (one epoch of one batch).
\<close>

definition cfg2 :: modelConfig where
  "cfg2 = \<lparr>name = ''Test'', type_cfg = ''CNN'', architecture = ''resnet'', epochs = 2,
           batchSize = 10, learningRate_cfg = 0.01, datasetSize = 10\<rparr>"

definition cfgA :: modelConfig where
  "cfgA = \<lparr>name = ''Test'', type_cfg = ''CNN'', architecture = ''resnet'', epochs = 1,
           batchSize = 10, learningRate_cfg = 0.01, datasetSize = 10\<rparr>"

text \<open>A list of draws, all 0.5.\<close>

definition draws :: rnd where
  "draws = \<lparr>rnd_loss = 0.5, rnd_acc = 0.5, rnd_valLoss = 0.5, rnd_valAcc = 0.5,
            rnd_precision = 0.5, rnd_recall = 0.5\<rparr>"



text \<open>A registry in which nobody is subscribed to \<open>alerts\<close> or to \<open>all\<close>.\<close>

definition quiet_clients :: clients where
  "quiet_clients = [(''c1'', P3_c1), (''c3'', P3_c3)]"

section \<open>Decimal rendering\<close>

lemma dec_0: "dec 0 = ''0''"
  by code_simp

lemma digit_char_inj: "a < 10 \<Longrightarrow> b < 10 \<Longrightarrow> digit_char a = digit_char b \<Longrightarrow> a = b"
proof -
  assume a: "a < 10" and b: "b < 10" and e: "digit_char a = digit_char b"
  from e have "(of_char (digit_char a) :: nat) = of_char (digit_char b)" by simp
  then have "(48 + a) mod 256 = (48 + b) mod 256"
    by (simp add: digit_char_def)
  with a b show "a = b" by simp
qed

lemma digit_char_not_underscore: "d < 10 \<Longrightarrow> digit_char d \<noteq> CHR ''_''"
proof
  assume d: "d < 10" and e: "digit_char d = CHR ''_''"
  from e have "(of_char (digit_char d) :: nat) = of_char (CHR ''_'')" by simp
  then have "(48 + d) mod 256 = 95" by (simp add: digit_char_def)
  with d show False by simp
qed

lemma dec_length: "1 \<le> length (dec n)"
  by (subst dec.simps) simp

lemma dec_length_ge10: "10 \<le> n \<Longrightarrow> 2 \<le> length (dec n)"
proof -
  assume "10 \<le> n"
  then have "length (dec n) = length (dec (n div 10)) + 1"
    by (subst dec.simps) simp
  with dec_length [of "n div 10"] show ?thesis by linarith
qed

lemma dec_inj: "dec n = dec m \<Longrightarrow> n = m"
proof (induction n arbitrary: m rule: dec.induct)
  case (1 n)
  show ?case
  proof (cases "n < 10")
    case True
    show ?thesis
    proof (cases "m < 10")
      case mt: True
      from "1.prems" True mt have "digit_char n = digit_char m"
        by (simp add: dec.simps [of n] dec.simps [of m])
      with True mt show ?thesis by (rule digit_char_inj)
    next
      case False
      then have "2 \<le> length (dec m)" by (simp add: dec_length_ge10)
      moreover from True have "length (dec n) = 1" by (simp add: dec.simps [of n])
      ultimately show ?thesis using "1.prems" by simp
    qed
  next
    case False
    show ?thesis
    proof (cases "m < 10")
      case True
      from False have "2 \<le> length (dec n)" by (simp add: dec_length_ge10)
      moreover from True have "length (dec m) = 1" by (simp add: dec.simps [of m])
      ultimately show ?thesis using "1.prems" by simp
    next
      case mf: False
      from "1.prems" False mf
      have eq: "dec (n div 10) @ [digit_char (n mod 10)] = dec (m div 10) @ [digit_char (m mod 10)]"
        by (simp add: dec.simps [of n] dec.simps [of m])
      then have "dec (n div 10) = dec (m div 10)" and dc: "digit_char (n mod 10) = digit_char (m mod 10)"
        by simp_all
      with False "1.IH" have "n div 10 = m div 10" by simp
      moreover from dc have "n mod 10 = m mod 10" by (intro digit_char_inj) simp_all
      ultimately show ?thesis by (metis div_mult_mod_eq)
    qed
  qed
qed

lemma dec_no_underscore: "CHR ''_'' \<notin> set (dec n)"
proof (induction n rule: dec.induct)
  case (1 n)
  show ?case
  proof (cases "n < 10")
    case True
    then show ?thesis using digit_char_not_underscore [of n] by (auto simp: dec.simps [of n])
  next
    case False
    with "1.IH" have "CHR ''_'' \<notin> set (dec (n div 10))" by simp
    moreover have "digit_char (n mod 10) \<noteq> CHR ''_''" by (rule digit_char_not_underscore) simp
    ultimately show ?thesis using False by (auto simp: dec.simps [of n])
  qed
qed

lemma split_at_first:
  "x \<notin> set xs \<Longrightarrow> x \<notin> set xs' \<Longrightarrow> xs @ x # ys = xs' @ x # ys' \<Longrightarrow> xs = xs' \<and> ys = ys'"
proof (induction xs arbitrary: xs')
  case Nil
  then show ?case by (cases xs') auto
next
  case (Cons a xs)
  then show ?case by (cases xs') auto
qed

section \<open>Facts about broadcast\<close>

lemma broadcast_client_returned:
  "returned (broadcast_client m ch c r) = returned r"
  by (simp add: broadcast_client_def)

lemma broadcast_client_sent:
  "sent (broadcast_client m ch c r) = sent r @ (if receives ch c then [(c, m)] else [])"
  by (simp add: broadcast_client_def receives_def)

lemma broadcast_client_sentCount:
  "sentCount (broadcast_client m ch c r) = sentCount r + (if receives ch c then 1 else 0)"
  by (simp add: broadcast_client_def receives_def)

lemma broadcast_loop_returned:
  "returned (broadcast_loop m ch cs r) = returned r"
  by (induction cs arbitrary: r) (auto simp: broadcast_client_returned)

lemma broadcast_loop_sent:
  "sent (broadcast_loop m ch cs r) =
     sent r @ map (\<lambda>c. (c, m)) (filter (receives ch) (map snd cs))"
  by (induction cs arbitrary: r) (auto simp: broadcast_client_sent)

lemma broadcast_loop_sentCount:
  "sentCount (broadcast_loop m ch cs r) =
     sentCount r + length (filter (receives ch) (map snd cs))"
  by (induction cs arbitrary: r) (auto simp: broadcast_client_sentCount)

lemma broadcast_returned: "returned (broadcast t d ch now cs) = Undefined"
  by (simp add: broadcast_def Let_def broadcast_loop_returned)

lemma broadcast_sent:
  "sent (broadcast t d ch now cs) =
     map (\<lambda>c. (c, \<lparr>type_msg = t, data = d, timestamp = now\<rparr>)) (filter (receives ch) (map snd cs))"
  by (simp add: broadcast_def Let_def broadcast_loop_sent)

lemma broadcast_sentCount:
  "sentCount (broadcast t d ch now cs) = length (filter (receives ch) (map snd cs))"
  by (simp add: broadcast_def Let_def broadcast_loop_sentCount)

lemma broadcast_console_last:
  "last (console (broadcast t d ch now cs)) =
     ''Broadcasted '' @ t @ '' message to '' @ dec (sentCount (broadcast t d ch now cs)) @ '' clients''
        @ (if falsy ch then [] else '' on channel '' @ the ch)"
  by (simp add: broadcast_def Let_def)

text \<open>
  C1, as the code has it: \<open>broadcast\<close> has no failing branch (the one call that can
  throw is caught), it evaluates to \<open>undefined\<close>, and the number of successful
  deliveries is the final \<open>sentCount\<close>, which is written to the console; that number
  is 0 when no registered client is reached.
\<close>

theorem broadcast_returns_nothing_and_logs_count:
  "returned (broadcast t d ch now cs) = Undefined
   \<and> sentCount (broadcast t d ch now cs) = length (sent (broadcast t d ch now cs))
   \<and> fst ` set (sent (broadcast t d ch now cs)) = {c \<in> snd ` set cs. receives ch c}
   \<and> last (console (broadcast t d ch now cs)) =
       ''Broadcasted '' @ t @ '' message to '' @ dec (sentCount (broadcast t d ch now cs)) @ '' clients''
          @ (if falsy ch then [] else '' on channel '' @ the ch)
   \<and> ((\<forall>c \<in> snd ` set cs. \<not> receives ch c) \<longrightarrow> sentCount (broadcast t d ch now cs) = 0)"
proof -
  have "fst ` set (sent (broadcast t d ch now cs)) = {c \<in> snd ` set cs. receives ch c}"
    by (force simp: broadcast_sent)
  moreover have "(\<forall>c \<in> snd ` set cs. \<not> receives ch c) \<longrightarrow> sentCount (broadcast t d ch now cs) = 0"
    by (auto simp: broadcast_sentCount filter_empty_conv)
  ultimately show ?thesis
    by (simp add: broadcast_returned broadcast_sentCount broadcast_sent broadcast_console_last)
qed

text \<open>
  C1, witness: scenario C of the specification, an alert on the channel \<open>alerts\<close>
  with two clients registered and neither subscribed to it.
\<close>

theorem broadcast_returns_nothing_and_logs_count_witness:
  "\<not> receives (Some ''alerts'') P3_c1 \<and> \<not> receives (Some ''alerts'') P3_c3
   \<and> returned (broadcast ''alert'' [(''msg'', ''test'')] (Some ''alerts'') 0 quiet_clients) = Undefined
   \<and> sentCount (broadcast ''alert'' [(''msg'', ''test'')] (Some ''alerts'') 0 quiet_clients) = 0
   \<and> last (console (broadcast ''alert'' [(''msg'', ''test'')] (Some ''alerts'') 0 quiet_clients)) =
        ''Broadcasted alert message to 0 clients on channel alerts''"
proof -
  have no: "\<not> receives (Some ''alerts'') P3_c1" "\<not> receives (Some ''alerts'') P3_c3"
    by (simp_all add: receives_def falsy_def has_def P3_c1_def P3_c3_def)
  then have all: "\<forall>c \<in> snd ` set quiet_clients. \<not> receives (Some ''alerts'') c"
    by (simp add: quiet_clients_def)
  note inst = broadcast_returns_nothing_and_logs_count
         [of "''alert''" "[(''msg'', ''test'')]" "Some ''alerts''" 0 quiet_clients]
  from inst all have zero: "sentCount (broadcast ''alert'' [(''msg'', ''test'')] (Some ''alerts'') 0 quiet_clients) = 0"
    by blast
  from inst have "last (console (broadcast ''alert'' [(''msg'', ''test'')] (Some ''alerts'') 0 quiet_clients)) =
       ''Broadcasted '' @ ''alert'' @ '' message to ''
         @ dec (sentCount (broadcast ''alert'' [(''msg'', ''test'')] (Some ''alerts'') 0 quiet_clients))
         @ '' clients'' @ (if falsy (Some ''alerts'') then [] else '' on channel '' @ the (Some ''alerts''))"
    by blast
  with zero have line: "last (console (broadcast ''alert'' [(''msg'', ''test'')] (Some ''alerts'') 0 quiet_clients)) =
        ''Broadcasted alert message to 0 clients on channel alerts''"
    by (simp add: falsy_def dec_0)
  from inst have "returned (broadcast ''alert'' [(''msg'', ''test'')] (Some ''alerts'') 0 quiet_clients) = Undefined"
    by blast
  with no zero line show ?thesis by simp
qed

text \<open>
  C1, counterexample: in scenario C the claim has the call return the count 0; the call
  evaluates to \<open>undefined\<close>.
\<close>

theorem broadcast_does_not_return_count:
  "returned (broadcast ''alert'' [(''msg'', ''test'')] (Some ''alerts'') 0 []) \<noteq> Number 0"
  by (simp add: broadcast_def)

text \<open>
  C4, as the code has it: a registered client receives the event if and only if its
  transport is open, the send does not throw, and the channel is absent or empty, or
  among the subscriptions of the client, or the client is subscribed to \<open>all\<close>.
\<close>

theorem broadcast_delivers_iff:
  "c \<in> fst ` set (sent (broadcast t d ch now cs)) \<longleftrightarrow>
     c \<in> snd ` set cs \<and> readyState (ws c) = OPEN \<and> \<not> sendThrows (ws c) \<and>
     (case ch of None \<Rightarrow> True
      | Some x \<Rightarrow> x = [] \<or> x \<in> set (subscriptions c) \<or> ''all'' \<in> set (subscriptions c))"
  by (cases ch) (force simp: broadcast_sent receives_def falsy_def has_def)+

text \<open>
  C4, witness: property P3 with the three transports open; a broadcast on \<open>x\<close>
  reaches \<open>c1\<close> and \<open>c2\<close> and not \<open>c3\<close>.
\<close>

theorem broadcast_delivers_iff_witness:
  "P3_c1 \<in> fst ` set (sent (broadcast ''alert'' [] (Some ''x'') 0 P3_clients))
   \<and> P3_c2 \<in> fst ` set (sent (broadcast ''alert'' [] (Some ''x'') 0 P3_clients))
   \<and> P3_c3 \<notin> fst ` set (sent (broadcast ''alert'' [] (Some ''x'') 0 P3_clients))"
  using broadcast_delivers_iff [of P3_c1 "''alert''" "[]" "Some ''x''" 0 P3_clients]
        broadcast_delivers_iff [of P3_c2 "''alert''" "[]" "Some ''x''" 0 P3_clients]
        broadcast_delivers_iff [of P3_c3 "''alert''" "[]" "Some ''x''" 0 P3_clients]
  by (simp add: P3_clients_def P3_c1_def P3_c2_def P3_c3_def open_ws_def)

text \<open>
  C4, counterexample: a registered client subscribed to \<open>x\<close> whose transport is
  closing. The claim has a broadcast on \<open>x\<close> delivered to it; the code skips it.
\<close>

theorem broadcast_skips_closing_transport:
  "\<not> (closing_client \<in> fst ` set (sent (broadcast ''alert'' [] (Some ''x'') 0 [(''c1'', closing_client)]))
      \<longleftrightarrow> (''x'' \<in> set (subscriptions closing_client) \<or> ''all'' \<in> set (subscriptions closing_client)))"
  by (simp add: broadcast_def broadcast_client_def closing_client_def)

section \<open>Facts about the heartbeat\<close>

lemma heartbeat_client_fst:
  "map_of (fst (heartbeat_client now k c st)) k' =
     (if dead now c \<and> k' = k then None else map_of (fst st) k')"
  by (auto simp: heartbeat_client_def dead_def delete_conv')

lemma heartbeat_client_snd:
  "snd (heartbeat_client now k c st) = snd st @ heartbeat_effect now c"
  by (simp add: heartbeat_client_def heartbeat_effect_def)

lemma heartbeat_loop_fst:
  "map_of (fst (heartbeat_loop now es st)) k' =
     (if \<exists>c. (k', c) \<in> set es \<and> dead now c then None else map_of (fst st) k')"
proof (induction es arbitrary: st)
  case Nil
  then show ?case by simp
next
  case (Cons e es)
  obtain k c where e: "e = (k, c)" by (cases e)
  have "map_of (fst (heartbeat_loop now (e # es) st)) k' =
          map_of (fst (heartbeat_loop now es (heartbeat_client now k c st))) k'"
    by (simp add: e)
  also have "\<dots> = (if \<exists>c'. (k', c') \<in> set es \<and> dead now c' then None
                    else map_of (fst (heartbeat_client now k c st)) k')"
    by (rule Cons.IH)
  also have "\<dots> = (if \<exists>c'. (k', c') \<in> set (e # es) \<and> dead now c' then None else map_of (fst st) k')"
    by (auto simp: heartbeat_client_fst e)
  finally show ?case .
qed

lemma heartbeat_loop_snd:
  "snd (heartbeat_loop now es st) = snd st @ concat (map (\<lambda>e. heartbeat_effect now (snd e)) es)"
proof (induction es arbitrary: st)
  case Nil
  then show ?case by simp
next
  case (Cons e es)
  obtain k c where e: "e = (k, c)" by (cases e)
  have "snd (heartbeat_loop now (e # es) st) = snd (heartbeat_loop now es (heartbeat_client now k c st))"
    by (simp add: e)
  also have "\<dots> = snd (heartbeat_client now k c st) @ concat (map (\<lambda>e. heartbeat_effect now (snd e)) es)"
    by (rule Cons.IH)
  finally show ?case by (simp add: heartbeat_client_snd e)
qed

lemma heartbeat_registry:
  "map_of (fst (heartbeat now cs)) k =
     (if \<exists>c. (k, c) \<in> set cs \<and> dead now c then None else map_of cs k)"
  by (simp only: heartbeat_def heartbeat_loop_fst fst_conv)

lemma heartbeat_effects:
  "set (snd (heartbeat now cs)) = (\<Union>e \<in> set cs. set (heartbeat_effect now (snd e)))"
  by (simp add: heartbeat_def heartbeat_loop_snd)

text \<open>
  C6: one heartbeat tick at clock value \<open>now\<close>, for a client \<open>c\<close> registered under
  \<open>k\<close> (the keys of a \<open>Map\<close> are distinct). If its transport is not open it is removed
  and neither terminated nor pinged; if it is open and \<open>now - lastPing > 30000\<close> the
  transport is terminated and the client removed; otherwise a ping is sent and the
  client stays registered. So a client silent for more than 30 seconds is gone after
  the tick.
\<close>

theorem heartbeat_tick:
  assumes "distinct (map fst cs)" and "(k, c) \<in> set cs"
  shows "(readyState (ws c) \<noteq> OPEN \<longrightarrow>
            map_of (fst (heartbeat now cs)) k = None
            \<and> Terminate c \<notin> set (snd (heartbeat now cs))
            \<and> Ping c \<notin> set (snd (heartbeat now cs)))
       \<and> (readyState (ws c) = OPEN \<and> int now - int (lastPing c) > 30000 \<longrightarrow>
            map_of (fst (heartbeat now cs)) k = None
            \<and> Terminate c \<in> set (snd (heartbeat now cs)))
       \<and> (readyState (ws c) = OPEN \<and> \<not> int now - int (lastPing c) > 30000 \<longrightarrow>
            map_of (fst (heartbeat now cs)) k = Some c
            \<and> Ping c \<in> set (snd (heartbeat now cs))
            \<and> Terminate c \<notin> set (snd (heartbeat now cs)))
       \<and> (int now - int (lastPing c) > 30000 \<longrightarrow> map_of (fst (heartbeat now cs)) k = None)"
proof -
  have only: "\<And>c'. (k, c') \<in> set cs \<Longrightarrow> c' = c"
    using assms by (meson eq_key_imp_eq_value)
  have look: "map_of cs k = Some c"
    using assms by simp
  have closed: "readyState (ws c) \<noteq> OPEN \<Longrightarrow> ?thesis"
    using assms(2) by (auto simp: heartbeat_registry heartbeat_effects heartbeat_effect_def dead_def)
  have late: "readyState (ws c) = OPEN \<Longrightarrow> int now - int (lastPing c) > 30000 \<Longrightarrow> ?thesis"
    using assms(2) by (force simp: heartbeat_registry heartbeat_effects heartbeat_effect_def dead_def)
  have alive: "readyState (ws c) = OPEN \<Longrightarrow> \<not> int now - int (lastPing c) > 30000 \<Longrightarrow> ?thesis"
  proof -
    assume o: "readyState (ws c) = OPEN" and t: "\<not> int now - int (lastPing c) > 30000"
    then have "\<not> dead now c" by (simp add: dead_def)
    with only have "\<not> (\<exists>c'. (k, c') \<in> set cs \<and> dead now c')" by blast
    then have "map_of (fst (heartbeat now cs)) k = Some c"
      by (simp add: heartbeat_registry look)
    moreover have "Ping c \<in> set (snd (heartbeat now cs))"
      using assms(2) o t by (force simp: heartbeat_effects heartbeat_effect_def)
    moreover have "Terminate c \<notin> set (snd (heartbeat now cs))"
      using o t by (auto simp: heartbeat_effects heartbeat_effect_def split: if_splits)
    ultimately show ?thesis using o t by simp
  qed
  from closed late alive show ?thesis by blast
qed

text \<open>
  C6, witness: the tick at 31001. The client \<open>a\<close>, open and last heard at 1000, is
  terminated and removed; \<open>b\<close>, last heard at 20000, is pinged and stays; \<open>c\<close>, whose
  transport is closed, is removed.
\<close>

theorem heartbeat_tick_witness:
  "distinct (map fst hb_clients)
   \<and> (''a'', hb_quiet) \<in> set hb_clients \<and> (''b'', hb_live) \<in> set hb_clients
   \<and> (''c'', hb_closed) \<in> set hb_clients
   \<and> readyState (ws hb_quiet) = OPEN \<and> int 31001 - int (lastPing hb_quiet) > 30000
   \<and> map_of (fst (heartbeat 31001 hb_clients)) ''a'' = None
   \<and> Terminate hb_quiet \<in> set (snd (heartbeat 31001 hb_clients))
   \<and> readyState (ws hb_live) = OPEN \<and> \<not> int 31001 - int (lastPing hb_live) > 30000
   \<and> map_of (fst (heartbeat 31001 hb_clients)) ''b'' = Some hb_live
   \<and> Ping hb_live \<in> set (snd (heartbeat 31001 hb_clients))
   \<and> readyState (ws hb_closed) \<noteq> OPEN
   \<and> map_of (fst (heartbeat 31001 hb_clients)) ''c'' = None"
proof -
  have d: "distinct (map fst hb_clients)" by (simp add: hb_clients_def)
  have ma: "(''a'', hb_quiet) \<in> set hb_clients" and mb: "(''b'', hb_live) \<in> set hb_clients"
    and mc: "(''c'', hb_closed) \<in> set hb_clients"
    by (simp_all add: hb_clients_def)
  have a: "readyState (ws hb_quiet) = OPEN \<and> int 31001 - int (lastPing hb_quiet) > 30000"
    by (simp add: hb_quiet_def open_ws_def)
  have b: "readyState (ws hb_live) = OPEN \<and> \<not> int 31001 - int (lastPing hb_live) > 30000"
    by (simp add: hb_live_def open_ws_def)
  have c: "readyState (ws hb_closed) \<noteq> OPEN"
    by (simp add: hb_closed_def)
  from heartbeat_tick [OF d ma, of 31001] heartbeat_tick [OF d mb, of 31001]
       heartbeat_tick [OF d mc, of 31001] a b c d ma mb mc
  show ?thesis by simp
qed

section \<open>Facts about client ids\<close>

lemma generateClientId_eq_iff:
  "generateClientId n1 r1 = generateClientId n2 r2 \<longleftrightarrow> n1 = n2 \<and> drop 7 r1 = drop 7 r2"
proof
  assume "generateClientId n1 r1 = generateClientId n2 r2"
  then have "dec n1 @ CHR ''_'' # drop 7 r1 = dec n2 @ CHR ''_'' # drop 7 r2"
    by (simp add: generateClientId_def)
  then have "dec n1 = dec n2 \<and> drop 7 r1 = drop 7 r2"
    by (rule split_at_first [OF dec_no_underscore dec_no_underscore])
  then show "n1 = n2 \<and> drop 7 r1 = drop 7 r2" by (auto dest: dec_inj)
next
  assume "n1 = n2 \<and> drop 7 r1 = drop 7 r2"
  then show "generateClientId n1 r1 = generateClientId n2 r2"
    by (simp add: generateClientId_def)
qed

lemma on_connection_id: "fst (on_connection w now rs cs) = generateClientId now rs"
  by (simp add: on_connection_def Let_def)

lemma on_connection_registry:
  "fst (snd (on_connection w now rs cs)) =
     AList.update (generateClientId now rs)
       \<lparr>ws = w, id_client = generateClientId now rs, subscriptions = [], lastPing = now\<rparr> cs"
  by (simp add: on_connection_def Let_def)

text \<open>
  C8, as the code has it: the id of a new connection is \<open>generateClientId\<close> of the
  clock and the random draw, and nothing compares it with the registry. Two generated
  ids are equal exactly when the clock values are equal and the renderings of the
  draws agree after their seventh character. The new client is stored under its id,
  every other entry is untouched, and the keys of the registry stay distinct: a
  connection whose id is already registered takes the place of the earlier one.
\<close>

theorem client_id_fresh_iff_clock_or_suffix_differs:
  "fst (on_connection w now rs cs) = generateClientId now rs
   \<and> (generateClientId n1 r1 = generateClientId n2 r2 \<longleftrightarrow> n1 = n2 \<and> drop 7 r1 = drop 7 r2)
   \<and> map_of (fst (snd (on_connection w now rs cs))) (generateClientId now rs) =
        Some \<lparr>ws = w, id_client = generateClientId now rs, subscriptions = [], lastPing = now\<rparr>
   \<and> (\<forall>k. k \<noteq> generateClientId now rs \<longrightarrow>
          map_of (fst (snd (on_connection w now rs cs))) k = map_of cs k)
   \<and> (distinct (map fst cs) \<longrightarrow> distinct (map fst (fst (snd (on_connection w now rs cs)))))"
  by (simp add: on_connection_id on_connection_registry generateClientId_eq_iff
        update_conv' distinct_update)

text \<open>
  C8, witness: from the empty registry, ids generated one millisecond apart differ,
  ids generated in the same millisecond with different suffixes differ, and the
  registry after the connection has distinct keys.
\<close>

theorem client_id_fresh_iff_clock_or_suffix_differs_witness:
  "distinct (map fst ([] :: clients))
   \<and> generateClientId 1700000000000 ''0.4fzyo82mvyr'' \<noteq> generateClientId 1700000000001 ''0.4fzyo82mvyr''
   \<and> generateClientId 1700000000000 ''0.4fzyo82mvyr'' \<noteq> generateClientId 1700000000000 ''0.4fzyo8abcde''
   \<and> distinct (map fst (fst (snd (on_connection open_ws 1700000000000 ''0.4fzyo82mvyr'' []))))
   \<and> map_of (fst (snd (on_connection open_ws 1700000000000 ''0.4fzyo82mvyr'' [])))
        (generateClientId 1700000000001 ''0.4fzyo82mvyr'') = None"
  using client_id_fresh_iff_clock_or_suffix_differs
          [of open_ws 1700000000000 "''0.4fzyo82mvyr''" "[]"
              1700000000000 "''0.4fzyo82mvyr''" 1700000000001 "''0.4fzyo82mvyr''"]
        client_id_fresh_iff_clock_or_suffix_differs
          [of open_ws 1700000000000 "''0.4fzyo82mvyr''" "[]"
              1700000000000 "''0.4fzyo82mvyr''" 1700000000000 "''0.4fzyo8abcde''"]
  by simp

text \<open>
  C8, counterexample: two connections accepted in the same millisecond whose draws
  are 0.5 and 0.25 (\<open>0.i\<close> and \<open>0.9\<close> in base 36, both empty after seven characters).
  The id assigned to the second is the id under which the first is registered.
\<close>

theorem client_id_collision:
  "fst (on_connection open_ws 1700000000000 ''0.9''
          (fst (snd (on_connection open_ws 1700000000000 ''0.i'' []))))
     \<in> keys (fst (snd (on_connection open_ws 1700000000000 ''0.i'' [])))"
  by (simp add: on_connection_id on_connection_registry generateClientId_def keys_def)

section \<open>Facts about the metric curves\<close>

text \<open>
  C7: for the model type \<open>CNN\<close>, a progress in \<open>[0, 1]\<close> and draws of \<open>Math.random()\<close>
  in \<open>[0, 1)\<close> (a noise in \<open>[-0.01, 0.01)\<close> for the accuracy and in \<open>[-0.05, 0.05)\<close> for
  the loss), the accuracy is at most 0.95 and the loss at least 0.05.
\<close>

theorem cnn_curve_bounds:
  assumes "0 \<le> progress" and "progress \<le> 1" and "unit_draw r1" and "unit_draw r2"
  shows "generateAccuracy progress ''CNN'' r1 \<le> 0.95 \<and> 0.05 \<le> generateLoss progress ''CNN'' r2"
proof -
  have "generateAccuracy progress ''CNN'' r1 \<le> 0.95"
    unfolding generateAccuracy_def Let_def by (simp only: simp_thms if_True min.cobounded1)
  moreover have "0.05 \<le> generateLoss progress ''CNN'' r2"
  proof -
    define x where "x = exp (- progress * 3)"
    have x: "0 \<le> x" by (simp add: x_def)
    from assms(4) have r: "0 \<le> r2" by (simp add: unit_draw_def)
    from x r have "0.05 \<le> 2.5 * x + 0.1 + (r2 - 0.5) * 0.1"
      by (simp add: power2_eq_square field_simps)
    then show ?thesis by (simp add: generateLoss_def Let_def x_def)
  qed
  ultimately show ?thesis by simp
qed

text \<open>C7, witness: progress 0 with both draws 0 gives accuracy 0.29 and loss 2.55.\<close>

theorem cnn_curve_bounds_witness:
  "(0::real) \<le> 0 \<and> (0::real) \<le> 1 \<and> unit_draw 0 \<and> generateAccuracy 0 ''CNN'' 0 = 0.29
   \<and> generateLoss 0 ''CNN'' 0 = 2.55
   \<and> generateAccuracy 0 ''CNN'' 0 \<le> 0.95 \<and> 0.05 \<le> generateLoss 0 ''CNN'' 0"
proof -
  have u: "unit_draw 0" by (simp add: unit_draw_def)
  have z: "(0::real) \<le> 0" and o: "(0::real) \<le> 1" by simp_all
  have a: "generateAccuracy 0 ''CNN'' 0 = 0.29" by (simp add: generateAccuracy_def)
  have l: "generateLoss 0 ''CNN'' 0 = 2.55" by (simp add: generateLoss_def)
  from cnn_curve_bounds [OF z o u u] u a l show ?thesis by simp
qed

section \<open>The invariants hold in every reachable state\<close>

subsection \<open>The order on pairs\<close>

lemma pair_le_refl: "pair_le a a"
  by (simp add: pair_le_def)

lemma pair_le_trans: "pair_le a b \<Longrightarrow> pair_le b c \<Longrightarrow> pair_le a c"
  by (auto simp: pair_le_def)

lemma pair_le_antisym: "pair_le a b \<Longrightarrow> pair_le b a \<Longrightarrow> a = b"
  by (auto simp: pair_le_def prod_eq_iff)

lemma pair_less_le: "pair_less a b \<Longrightarrow> pair_le a b"
  by (auto simp: pair_le_def pair_less_def)

subsection \<open>Events and progress\<close>

lemma events_inv_update:
  assumes "events_inv tp em" and "map_of tp j = Some p" and "modelId p' = j"
    and "pair_le (cur_pair p) (cur_pair p')"
  shows "events_inv (AList.update j p' tp) em"
proof -
  have a: "\<forall>k q. map_of (AList.update j p' tp) k = Some q \<longrightarrow> modelId q = k"
    using assms(1,3) by (auto simp: events_inv_def update_conv')
  have b: "\<forall>e \<in> set em. \<exists>q. map_of (AList.update j p' tp) (ev_job e) = Some q
             \<and> pair_le (ev_pair e) (cur_pair q)"
  proof
    fix e assume e: "e \<in> set em"
    with assms(1) obtain q where q: "map_of tp (ev_job e) = Some q" "pair_le (ev_pair e) (cur_pair q)"
      by (auto simp: events_inv_def)
    show "\<exists>q. map_of (AList.update j p' tp) (ev_job e) = Some q \<and> pair_le (ev_pair e) (cur_pair q)"
    proof (cases "ev_job e = j")
      case True
      with q assms(2) have "q = p" by simp
      with q assms(4) have "pair_le (ev_pair e) (cur_pair p')" by (blast intro: pair_le_trans)
      with True show ?thesis by (simp add: update_conv')
    next
      case False
      with q show ?thesis by (simp add: update_conv')
    qed
  qed
  from a b assms(1) show ?thesis by (simp add: events_inv_def)
qed

lemma events_inv_new:
  assumes "events_inv tp em" and "map_of tp j = None" and "modelId p = j"
  shows "events_inv (AList.update j p tp) em"
proof -
  have a: "\<forall>k q. map_of (AList.update j p tp) k = Some q \<longrightarrow> modelId q = k"
    using assms(1,3) by (auto simp: events_inv_def update_conv')
  have b: "\<forall>e \<in> set em. \<exists>q. map_of (AList.update j p tp) (ev_job e) = Some q
             \<and> pair_le (ev_pair e) (cur_pair q)"
  proof
    fix e assume e: "e \<in> set em"
    with assms(1) obtain q where q: "map_of tp (ev_job e) = Some q" "pair_le (ev_pair e) (cur_pair q)"
      by (auto simp: events_inv_def)
    with assms(2) have "ev_job e \<noteq> j" by auto
    with q show "\<exists>q. map_of (AList.update j p tp) (ev_job e) = Some q \<and> pair_le (ev_pair e) (cur_pair q)"
      by (simp add: update_conv')
  qed
  from a b assms(1) show ?thesis by (simp add: events_inv_def)
qed

lemma events_inv_emit:
  assumes "events_inv tp em" and "map_of tp (ev_job e) = Some p" and "ev_pair e = cur_pair p"
  shows "events_inv tp (em @ [e])"
proof -
  have b: "\<forall>x \<in> set (em @ [e]). \<exists>q. map_of tp (ev_job x) = Some q \<and> pair_le (ev_pair x) (cur_pair q)"
    using assms by (auto simp: events_inv_def pair_le_refl)
  have c: "sorted_wrt pair_le (map ev_pair (filter (\<lambda>x. ev_job x = j) (em @ [e])))" for j
  proof (cases "ev_job e = j")
    case True
    have "\<forall>y \<in> set (filter (\<lambda>x. ev_job x = j) em). pair_le (ev_pair y) (ev_pair e)"
    proof
      fix y assume "y \<in> set (filter (\<lambda>x. ev_job x = j) em)"
      then have y: "y \<in> set em" "ev_job y = ev_job e" using True by simp_all
      with assms(1) obtain q where "map_of tp (ev_job y) = Some q" "pair_le (ev_pair y) (cur_pair q)"
        by (auto simp: events_inv_def)
      with y assms(2,3) show "pair_le (ev_pair y) (ev_pair e)" by simp
    qed
    moreover from assms(1) have "sorted_wrt pair_le (map ev_pair (filter (\<lambda>x. ev_job x = j) em))"
      by (simp add: events_inv_def)
    ultimately show ?thesis using True by (simp add: sorted_wrt_append)
  next
    case False
    with assms(1) show ?thesis by (simp add: events_inv_def)
  qed
  from b c assms(1) show ?thesis by (simp add: events_inv_def)
qed

lemma events_inv_no_events:
  assumes "events_inv tp em" and "map_of tp j = None" and "e \<in> set em"
  shows "ev_job e \<noteq> j"
  using assms by (auto simp: events_inv_def)

subsection \<open>Terminal events\<close>

lemma terminal_inv_update_same:
  assumes "terminal_inv ats tp em" and "map_of tp j = Some p" and "cur_pair p' = cur_pair p"
  shows "terminal_inv ats (AList.update j p' tp) em"
  using assms by (auto simp: terminal_inv_def update_conv')

lemma terminal_inv_update_active:
  assumes "terminal_inv ats tp em" and "map_of ats j = Some h"
  shows "terminal_inv ats (AList.update j p' tp) em"
  using assms by (auto simp: terminal_inv_def update_conv')

lemma terminal_inv_update_new:
  assumes "terminal_inv ats tp em" and "map_of tp j = None"
  shows "terminal_inv ats (AList.update j p' tp) em"
  using assms by (auto simp: terminal_inv_def update_conv')

lemma terminal_inv_emit_other:
  assumes "terminal_inv ats tp em" and "\<not> ev_terminal e"
  shows "terminal_inv ats tp (em @ [e])"
  using assms by (auto simp: terminal_inv_def)

lemma terminal_inv_emit_terminal:
  assumes "terminal_inv ats tp em" and "map_of ats (ev_job e) = None"
    and "map_of tp (ev_job e) = Some p" and "ev_pair e = cur_pair p"
  shows "terminal_inv ats tp (em @ [e])"
  using assms by (auto simp: terminal_inv_def)

lemma terminal_inv_delete:
  assumes "terminal_inv ats tp em"
  shows "terminal_inv (AList.delete j ats) tp em"
  using assms by (auto simp: terminal_inv_def delete_conv')

lemma terminal_inv_activate:
  assumes "terminal_inv ats tp em" and "\<forall>e \<in> set em. ev_job e \<noteq> j"
  shows "terminal_inv (AList.update j h ats) tp em"
  using assms by (auto simp: terminal_inv_def update_conv')

subsection \<open>Timers\<close>

lemma timers_inv_interval:
  "timers_inv ats tm tp nt \<Longrightarrow> map_of tm h = Some (TrainingInterval j t) \<Longrightarrow> map_of ats j = Some h"
  unfolding timers_inv_def by blast

lemma timers_inv_active:
  "timers_inv ats tm tp nt \<Longrightarrow> map_of ats j = Some h \<Longrightarrow> \<exists>t. map_of tm h = Some (TrainingInterval j t)"
  unfolding timers_inv_def by blast

lemma timers_inv_active_progress:
  "timers_inv ats tm tp nt \<Longrightarrow> map_of ats j = Some h \<Longrightarrow>
     \<exists>p. map_of tp j = Some p \<and> status p \<noteq> completed \<and> status p \<noteq> failed"
  unfolding timers_inv_def by blast

lemma timers_inv_bound:
  "timers_inv ats tm tp nt \<Longrightarrow> map_of tm h = Some x \<Longrightarrow> h < nt"
  unfolding timers_inv_def by blast

lemma timers_inv_fresh: "timers_inv ats tm tp nt \<Longrightarrow> map_of tm nt = None"
proof (cases "map_of tm nt")
  case None
  then show ?thesis .
next
  case (Some x)
  assume "timers_inv ats tm tp nt"
  from timers_inv_bound [OF this Some] show ?thesis by simp
qed

lemma timers_invI:
  assumes "\<And>h j t. map_of tm h = Some (TrainingInterval j t) \<Longrightarrow> map_of ats j = Some h"
    and "\<And>j h. map_of ats j = Some h \<Longrightarrow> \<exists>t. map_of tm h = Some (TrainingInterval j t)"
    and "\<And>j h. map_of ats j = Some h \<Longrightarrow>
           \<exists>p. map_of tp j = Some p \<and> status p \<noteq> completed \<and> status p \<noteq> failed"
    and "\<And>h x. map_of tm h = Some x \<Longrightarrow> h < nt"
  shows "timers_inv ats tm tp nt"
  unfolding timers_inv_def using assms by blast

lemma timers_inv_inactive:
  assumes "timers_inv ats tm tp nt" and "map_of tp j = None"
  shows "map_of ats j = None"
proof (cases "map_of ats j")
  case None
  then show ?thesis .
next
  case (Some h)
  from timers_inv_active_progress [OF assms(1) Some] assms(2) show ?thesis by simp
qed

lemma timers_inv_start:
  assumes inv: "timers_inv ats tm tp nt" and new: "map_of tp j = None"
    and st: "status p \<noteq> completed" "status p \<noteq> failed"
  shows "timers_inv (AList.update j nt ats) (AList.update nt (TrainingInterval j t) tm)
           (AList.update j p tp) (nt + 1)"
proof (rule timers_invI)
  note noact = timers_inv_inactive [OF inv new]
  note fresh = timers_inv_fresh [OF inv]
  {
    fix h j' t'
    assume a: "map_of (AList.update nt (TrainingInterval j t) tm) h = Some (TrainingInterval j' t')"
    show "map_of (AList.update j nt ats) j' = Some h"
    proof (cases "h = nt")
      case True
      with a show ?thesis by (simp add: update_conv')
    next
      case False
      with a have old: "map_of tm h = Some (TrainingInterval j' t')" by (simp add: update_conv')
      from timers_inv_interval [OF inv old] have o: "map_of ats j' = Some h" .
      with noact have "j' \<noteq> j" by auto
      with o show ?thesis by (simp add: update_conv')
    qed
  }
  {
    fix j' h
    assume a: "map_of (AList.update j nt ats) j' = Some h"
    show "\<exists>t'. map_of (AList.update nt (TrainingInterval j t) tm) h = Some (TrainingInterval j' t')"
    proof (cases "j' = j")
      case True
      with a show ?thesis by (simp add: update_conv')
    next
      case False
      with a have old: "map_of ats j' = Some h" by (simp add: update_conv')
      from timers_inv_active [OF inv old] obtain t' where t': "map_of tm h = Some (TrainingInterval j' t')" ..
      with fresh have "h \<noteq> nt" by auto
      with t' show ?thesis by (simp add: update_conv')
    qed
    show "\<exists>q. map_of (AList.update j p tp) j' = Some q \<and> status q \<noteq> completed \<and> status q \<noteq> failed"
    proof (cases "j' = j")
      case True
      with st show ?thesis by (simp add: update_conv')
    next
      case False
      with a have old: "map_of ats j' = Some h" by (simp add: update_conv')
      from timers_inv_active_progress [OF inv old] False show ?thesis by (simp add: update_conv')
    qed
  }
  {
    fix h x
    assume a: "map_of (AList.update nt (TrainingInterval j t) tm) h = Some x"
    show "h < nt + 1"
    proof (cases "h = nt")
      case True
      then show ?thesis by simp
    next
      case False
      with a have "map_of tm h = Some x" by (simp add: update_conv')
      from timers_inv_bound [OF inv this] show ?thesis by simp
    qed
  }
qed

lemma timers_inv_progress:
  assumes inv: "timers_inv ats tm tp nt"
    and ok: "map_of ats j = None \<or> (status p' \<noteq> completed \<and> status p' \<noteq> failed)"
  shows "timers_inv ats tm (AList.update j p' tp) nt"
proof (rule timers_invI)
  fix h j' t' assume "map_of tm h = Some (TrainingInterval j' t')"
  from timers_inv_interval [OF inv this] show "map_of ats j' = Some h" .
next
  fix j' h assume "map_of ats j' = Some h"
  from timers_inv_active [OF inv this] show "\<exists>t. map_of tm h = Some (TrainingInterval j' t)" .
next
  fix j' h assume a: "map_of ats j' = Some h"
  show "\<exists>q. map_of (AList.update j p' tp) j' = Some q \<and> status q \<noteq> completed \<and> status q \<noteq> failed"
  proof (cases "j' = j")
    case True
    with a ok show ?thesis by (simp add: update_conv')
  next
    case False
    with timers_inv_active_progress [OF inv a] show ?thesis by (simp add: update_conv')
  qed
next
  fix h x assume "map_of tm h = Some x"
  from timers_inv_bound [OF inv this] show "h < nt" .
qed

lemma timers_inv_set_timeout:
  assumes inv: "timers_inv ats tm tp nt"
  shows "timers_inv ats (AList.update nt (ValidationTimeout j) tm) tp (nt + 1)"
proof (rule timers_invI)
  fix h j' t'
  assume "map_of (AList.update nt (ValidationTimeout j) tm) h = Some (TrainingInterval j' t')"
  then have "map_of tm h = Some (TrainingInterval j' t')"
    by (cases "h = nt") (simp_all add: update_conv')
  from timers_inv_interval [OF inv this] show "map_of ats j' = Some h" .
next
  fix j' h assume a: "map_of ats j' = Some h"
  from timers_inv_active [OF inv a] obtain t' where t': "map_of tm h = Some (TrainingInterval j' t')" ..
  with timers_inv_fresh [OF inv] have "h \<noteq> nt" by auto
  with t' show "\<exists>t. map_of (AList.update nt (ValidationTimeout j) tm) h = Some (TrainingInterval j' t)"
    by (simp add: update_conv')
next
  fix j' h assume "map_of ats j' = Some h"
  from timers_inv_active_progress [OF inv this]
  show "\<exists>p. map_of tp j' = Some p \<and> status p \<noteq> completed \<and> status p \<noteq> failed" .
next
  fix h x
  assume a: "map_of (AList.update nt (ValidationTimeout j) tm) h = Some x"
  show "h < nt + 1"
  proof (cases "h = nt")
    case True
    then show ?thesis by simp
  next
    case False
    with a have "map_of tm h = Some x" by (simp add: update_conv')
    from timers_inv_bound [OF inv this] show ?thesis by simp
  qed
qed

lemma timers_inv_clear_timeout:
  assumes inv: "timers_inv ats tm tp nt" and tmo: "map_of tm h = Some (ValidationTimeout j)"
  shows "timers_inv ats (AList.delete h tm) tp nt"
proof (rule timers_invI)
  fix h' j' t'
  assume "map_of (AList.delete h tm) h' = Some (TrainingInterval j' t')"
  then have "map_of tm h' = Some (TrainingInterval j' t')"
    by (cases "h' = h") (simp_all add: delete_conv')
  from timers_inv_interval [OF inv this] show "map_of ats j' = Some h'" .
next
  fix j' h' assume a: "map_of ats j' = Some h'"
  from timers_inv_active [OF inv a] obtain t' where t': "map_of tm h' = Some (TrainingInterval j' t')" ..
  with tmo have "h' \<noteq> h" by auto
  with t' show "\<exists>t. map_of (AList.delete h tm) h' = Some (TrainingInterval j' t)"
    by (simp add: delete_conv')
next
  fix j' h' assume "map_of ats j' = Some h'"
  from timers_inv_active_progress [OF inv this]
  show "\<exists>p. map_of tp j' = Some p \<and> status p \<noteq> completed \<and> status p \<noteq> failed" .
next
  fix h' x
  assume "map_of (AList.delete h tm) h' = Some x"
  then have "map_of tm h' = Some x"
    by (cases "h' = h") (simp_all add: delete_conv')
  from timers_inv_bound [OF inv this] show "h' < nt" .
qed

lemma timers_inv_clear_interval:
  assumes inv: "timers_inv ats tm tp nt" and itv: "map_of tm h = Some (TrainingInterval j t)"
  shows "timers_inv (AList.delete j ats) (AList.delete h tm) tp nt"
proof (rule timers_invI)
  note act = timers_inv_interval [OF inv itv]
  {
    fix h' j' t'
    assume "map_of (AList.delete h tm) h' = Some (TrainingInterval j' t')"
    then have h': "h' \<noteq> h" "map_of tm h' = Some (TrainingInterval j' t')"
      by (cases "h' = h"; simp add: delete_conv')+
    from timers_inv_interval [OF inv h'(2)] have o: "map_of ats j' = Some h'" .
    with act h'(1) have "j' \<noteq> j" by auto
    with o show "map_of (AList.delete j ats) j' = Some h'" by (simp add: delete_conv')
  }
  {
    fix j' h'
    assume "map_of (AList.delete j ats) j' = Some h'"
    then have j': "j' \<noteq> j" "map_of ats j' = Some h'"
      by (cases "j' = j"; simp add: delete_conv')+
    from timers_inv_active [OF inv j'(2)] obtain t' where t': "map_of tm h' = Some (TrainingInterval j' t')" ..
    with itv j'(1) have "h' \<noteq> h" by auto
    with t' show "\<exists>t. map_of (AList.delete h tm) h' = Some (TrainingInterval j' t)"
      by (simp add: delete_conv')
    from timers_inv_active_progress [OF inv j'(2)]
    show "\<exists>p. map_of tp j' = Some p \<and> status p \<noteq> completed \<and> status p \<noteq> failed" .
  }
  {
    fix h' x
    assume "map_of (AList.delete h tm) h' = Some x"
    then have "map_of tm h' = Some x"
      by (cases "h' = h") (simp_all add: delete_conv')
    from timers_inv_bound [OF inv this] show "h' < nt" .
  }
qed

lemma store_inv_new:
  "store_inv tp st \<Longrightarrow> store_inv (AList.update j p tp) (AList.update j m st)"
  by (simp add: store_inv_def update_conv')

lemma store_inv_progress:
  "store_inv tp st \<Longrightarrow> map_of tp j = Some p \<Longrightarrow> store_inv (AList.update j p' tp) st"
  by (auto simp: store_inv_def update_conv')

lemma store_inv_fresh:
  "store_inv tp st \<Longrightarrow> j \<notin> keys st \<Longrightarrow> map_of tp j = None"
proof -
  assume inv: "store_inv tp st" and "j \<notin> keys st"
  then have "map_of st j = None" by (simp add: keys_def map_of_eq_None_iff)
  with inv show "map_of tp j = None" unfolding store_inv_def by blast
qed

lemma store_inv_update_store:
  "store_inv tp st \<Longrightarrow> updateAiModel j u st = Inr st' \<Longrightarrow> store_inv tp st'"
  by (auto simp: store_inv_def updateAiModel_def update_conv' split: option.splits)

subsection \<open>What each operation does to the fields\<close>

lemma createAiModel_id: "id_model (fst (createAiModel d j st)) = j"
  by (simp add: createAiModel_def InsertAiModel.defs AiModel.defs)

lemma startTraining_fields:
  "fst (startTraining cfg j s) = j"
  "activeTraining (snd (startTraining cfg j s)) = AList.update j (nextTimer s) (activeTraining s)"
  "trainingProgress (snd (startTraining cfg j s)) = AList.update j (started cfg j) (trainingProgress s)"
  "storage (snd (startTraining cfg j s)) = snd (createAiModel (modelData cfg) j (storage s))"
  "timers (snd (startTraining cfg j s)) = AList.update (nextTimer s) (TrainingInterval j (type_cfg cfg)) (timers s)"
  "nextTimer (snd (startTraining cfg j s)) = nextTimer s + 1"
  "emitted (snd (startTraining cfg j s)) = emitted s @ [trainingUpdate (started cfg j)]"
  by (simp_all add: startTraining_def simulateTraining_def setTimer_def Let_def createAiModel_id
        update_conv' started_def)

lemma started_facts:
  "modelId (started cfg j) = j" "status (started cfg j) = training"
  "cur_pair (started cfg j) = (0, 0)"
  by (simp_all add: started_def initialProgress_def cur_pair_def)

lemma world_inv_init: "world_inv init_world"
  by (simp add: world_inv_def init_world_def events_inv_def timers_inv_def terminal_inv_def store_inv_def)

lemma world_inv_start:
  assumes inv: "world_inv s" and fresh: "j \<notin> keys (storage s)"
  shows "world_inv (snd (startTraining cfg j s))"
proof -
  from inv have E: "events_inv (trainingProgress s) (emitted s)"
    and T: "timers_inv (activeTraining s) (timers s) (trainingProgress s) (nextTimer s)"
    and F: "terminal_inv (activeTraining s) (trainingProgress s) (emitted s)"
    and S: "store_inv (trainingProgress s) (storage s)"
    by (simp_all add: world_inv_def)
  from store_inv_fresh [OF S fresh] have new: "map_of (trainingProgress s) j = None" .
  have look: "map_of (AList.update j (started cfg j) (trainingProgress s)) j = Some (started cfg j)"
    by (simp add: update_conv')
  have E': "events_inv (AList.update j (started cfg j) (trainingProgress s))
              (emitted s @ [trainingUpdate (started cfg j)])"
    by (rule events_inv_emit [OF events_inv_new [OF E new] _ _, where p = "started cfg j"])
       (simp_all add: started_facts look ev_pair_def cur_pair_def)
  have T': "timers_inv (AList.update j (nextTimer s) (activeTraining s))
              (AList.update (nextTimer s) (TrainingInterval j (type_cfg cfg)) (timers s))
              (AList.update j (started cfg j) (trainingProgress s)) (nextTimer s + 1)"
    by (rule timers_inv_start [OF T new]) (simp_all add: started_facts)
  have none: "\<forall>e \<in> set (emitted s). ev_job e \<noteq> j"
    using events_inv_no_events [OF E new] by blast
  have F': "terminal_inv (AList.update j (nextTimer s) (activeTraining s))
              (AList.update j (started cfg j) (trainingProgress s))
              (emitted s @ [trainingUpdate (started cfg j)])"
    by (rule terminal_inv_emit_other
          [OF terminal_inv_update_new [OF terminal_inv_activate [OF F none] new]])
       (simp add: ev_terminal_def started_facts)
  have S': "store_inv (AList.update j (started cfg j) (trainingProgress s))
              (snd (createAiModel (modelData cfg) j (storage s)))"
    using S by (simp add: createAiModel_def store_inv_new)
  from E' T' F' S' show ?thesis
    by (simp add: world_inv_def startTraining_fields)
qed

lemma batch_step_facts:
  "modelId (batch_step p t r) = modelId p"
  "status (batch_step p t r) = status p"
  "epoch (batch_step p t r) = epoch p"
  "currentBatch (batch_step p t r) = currentBatch p + 1"
  "accuracy (batch_step p t r) =
     generateAccuracy ((real (epoch p) + real (currentBatch p + 1) / real (totalBatches p)) / real (totalEpochs p)) t (rnd_acc r)"
  by (simp_all add: batch_step_def Let_def)

lemma completed_progress_facts:
  "modelId (completed_progress p) = modelId p"
  "status (completed_progress p) = completed"
  "epoch (completed_progress p) = epoch p + 1"
  "currentBatch (completed_progress p) = 0"
  "accuracy (completed_progress p) = accuracy p"
  by (simp_all add: completed_progress_def)

lemma validating_progress_facts:
  "modelId (validating_progress p) = modelId p"
  "status (validating_progress p) = validating"
  "epoch (validating_progress p) = epoch p + 1"
  "currentBatch (validating_progress p) = 0"
  by (simp_all add: validating_progress_def)

lemma trainingTick_batch:
  assumes "map_of (trainingProgress s) j = Some p" and "currentBatch p < totalBatches p"
  shows "trainingTick j t h r s =
           s\<lparr>trainingProgress := AList.update j (batch_step p t r) (trainingProgress s),
             emitted := emitted s @ [trainingUpdate (batch_step p t r)]\<rparr>"
  using assms by (simp add: trainingTick_def)

lemma trainingTick_complete:
  assumes "map_of (trainingProgress s) j = Some p" and "\<not> currentBatch p < totalBatches p"
    and "totalEpochs p \<le> epoch p + 1"
  shows "activeTraining (trainingTick j t h r s) = AList.delete j (activeTraining s)"
    "trainingProgress (trainingTick j t h r s) = AList.update j (completed_progress p) (trainingProgress s)"
    "timers (trainingTick j t h r s) = AList.delete h (timers s)"
    "nextTimer (trainingTick j t h r s) = nextTimer s"
    "storage (trainingTick j t h r s) =
       (case finalizeModel j (completed_progress p) r (storage s) of Inl e \<Rightarrow> storage s | Inr st \<Rightarrow> st)"
    "emitted (trainingTick j t h r s) =
       (case finalizeModel j (completed_progress p) r (storage s) of
          Inl e \<Rightarrow> emitted s
        | Inr st \<Rightarrow> emitted s @ [trainingComplete j (completed_progress p)])"
  using assms
  by (simp_all add: trainingTick_def Let_def clearInterval_def completed_progress_def split: sum.splits)

lemma trainingTick_validate:
  assumes "map_of (trainingProgress s) j = Some p" and "\<not> currentBatch p < totalBatches p"
    and "\<not> totalEpochs p \<le> epoch p + 1"
  shows "trainingTick j t h r s =
           s\<lparr>trainingProgress := AList.update j (validating_progress p) (trainingProgress s),
             emitted := emitted s @ [trainingUpdate (validating_progress p)],
             timers := AList.update (nextTimer s) (ValidationTimeout j) (timers s),
             nextTimer := nextTimer s + 1\<rparr>"
  using assms by (simp add: trainingTick_def Let_def setTimer_def validating_progress_def)

lemma validationDone_fired:
  assumes "map_of (trainingProgress s) j = Some p"
  shows "validationDone j (clearInterval h s) =
           s\<lparr>timers := AList.delete h (timers s),
             trainingProgress := AList.update j (p\<lparr>status := training\<rparr>) (trainingProgress s),
             emitted := emitted s @ [trainingUpdate (p\<lparr>status := training\<rparr>)]\<rparr>"
  using assms by (simp add: validationDone_def clearInterval_def)

lemma validationDone_absent:
  assumes "map_of (trainingProgress s) j = None"
  shows "validationDone j (clearInterval h s) = s\<lparr>timers := AList.delete h (timers s)\<rparr>"
  using assms by (simp add: validationDone_def clearInterval_def)

lemma stopTraining_inactive:
  assumes "map_of (activeTraining s) j = None"
  shows "stopTraining j s = (False, s)"
  using assms by (simp add: stopTraining_def)

lemma stopTraining_active:
  assumes "map_of (activeTraining s) j = Some h" and "map_of (trainingProgress s) j = Some p"
  shows "stopTraining j s =
           (True, s\<lparr>timers := AList.delete h (timers s),
                    activeTraining := AList.delete j (activeTraining s),
                    trainingProgress := AList.update j (p\<lparr>status := failed\<rparr>) (trainingProgress s),
                    emitted := emitted s @ [trainingStopped j (p\<lparr>status := failed\<rparr>)]\<rparr>)"
  using assms by (simp add: stopTraining_def clearInterval_def Let_def)

lemma stopTraining_active_absent:
  assumes "map_of (activeTraining s) j = Some h" and "map_of (trainingProgress s) j = None"
  shows "stopTraining j s =
           (True, s\<lparr>timers := AList.delete h (timers s),
                    activeTraining := AList.delete j (activeTraining s)\<rparr>)"
  using assms by (simp add: stopTraining_def clearInterval_def Let_def)

lemma world_invD:
  assumes "world_inv s"
  shows "events_inv (trainingProgress s) (emitted s)"
    and "timers_inv (activeTraining s) (timers s) (trainingProgress s) (nextTimer s)"
    and "terminal_inv (activeTraining s) (trainingProgress s) (emitted s)"
    and "store_inv (trainingProgress s) (storage s)"
  using assms by (simp_all add: world_inv_def)

lemma events_inv_modelId: "events_inv tp em \<Longrightarrow> map_of tp j = Some p \<Longrightarrow> modelId p = j"
  unfolding events_inv_def by blast

lemma look_update: "map_of (AList.update j p tp) j = Some p"
  by (simp add: update_conv')

lemma look_delete: "map_of (AList.delete j al) j = None"
  by (simp add: delete_conv')

text \<open>A progress update followed by one event that carries the new progress.\<close>

lemma events_inv_step:
  assumes E: "events_inv tp em" and p: "map_of tp j = Some p"
    and id: "modelId p' = j" and le: "pair_le (cur_pair p) (cur_pair p')"
    and job: "ev_job e = j" and pr: "ev_pair e = cur_pair p'"
  shows "events_inv (AList.update j p' tp) (em @ [e])"
proof (rule events_inv_emit [where p = p'])
  show "events_inv (AList.update j p' tp) em" by (rule events_inv_update [OF E p id le])
  show "map_of (AList.update j p' tp) (ev_job e) = Some p'" by (simp add: job look_update)
  show "ev_pair e = cur_pair p'" by (rule pr)
qed

lemma world_inv_tick:
  assumes inv: "world_inv s" and itv: "map_of (timers s) h = Some (TrainingInterval j t)"
  shows "world_inv (trainingTick j t h r s)"
proof -
  note E = world_invD(1) [OF inv] and T = world_invD(2) [OF inv]
    and F = world_invD(3) [OF inv] and S = world_invD(4) [OF inv]
  from timers_inv_interval [OF T itv] have act: "map_of (activeTraining s) j = Some h" .
  from timers_inv_active_progress [OF T act] obtain p where
    p: "map_of (trainingProgress s) j = Some p" and st: "status p \<noteq> completed" "status p \<noteq> failed"
    by blast
  from events_inv_modelId [OF E p] have id: "modelId p = j" .
  show ?thesis
  proof (cases "currentBatch p < totalBatches p")
    case True
    let ?p = "batch_step p t r"
    have E': "events_inv (AList.update j ?p (trainingProgress s)) (emitted s @ [trainingUpdate ?p])"
      by (rule events_inv_step [OF E p])
         (simp_all add: batch_step_facts id cur_pair_def pair_le_def ev_pair_def)
    have T': "timers_inv (activeTraining s) (timers s) (AList.update j ?p (trainingProgress s)) (nextTimer s)"
      by (rule timers_inv_progress [OF T]) (simp add: batch_step_facts st)
    have F': "terminal_inv (activeTraining s) (AList.update j ?p (trainingProgress s))
                (emitted s @ [trainingUpdate ?p])"
      by (rule terminal_inv_emit_other [OF terminal_inv_update_active [OF F act]])
         (simp add: ev_terminal_def batch_step_facts st)
    have S': "store_inv (AList.update j ?p (trainingProgress s)) (storage s)"
      by (rule store_inv_progress [OF S p])
    from E' T' F' S' show ?thesis
      by (simp add: trainingTick_batch [OF p True] world_inv_def)
  next
    case False
    show ?thesis
    proof (cases "totalEpochs p \<le> epoch p + 1")
      case True
      let ?p = "completed_progress p"
      note fields = trainingTick_complete [OF p False True, of t h r]
      have Eu: "events_inv (AList.update j ?p (trainingProgress s)) (emitted s)"
        by (rule events_inv_update [OF E p])
           (simp_all add: completed_progress_facts id cur_pair_def pair_le_def)
      have Ee: "events_inv (AList.update j ?p (trainingProgress s)) (emitted s @ [trainingComplete j ?p])"
        by (rule events_inv_step [OF E p])
           (simp_all add: completed_progress_facts id cur_pair_def pair_le_def ev_pair_def)
      have T': "timers_inv (AList.delete j (activeTraining s)) (AList.delete h (timers s))
                  (AList.update j ?p (trainingProgress s)) (nextTimer s)"
        by (rule timers_inv_progress [OF timers_inv_clear_interval [OF T itv]])
           (simp add: look_delete)
      have Fu: "terminal_inv (AList.delete j (activeTraining s)) (AList.update j ?p (trainingProgress s))
                  (emitted s)"
        by (rule terminal_inv_delete [OF terminal_inv_update_active [OF F act]])
      have Fe: "terminal_inv (AList.delete j (activeTraining s)) (AList.update j ?p (trainingProgress s))
                  (emitted s @ [trainingComplete j ?p])"
        by (rule terminal_inv_emit_terminal [OF Fu, where p = ?p])
           (simp_all add: look_delete look_update ev_pair_def cur_pair_def)
      have Su: "store_inv (AList.update j ?p (trainingProgress s)) (storage s)"
        by (rule store_inv_progress [OF S p])
      show ?thesis
      proof (cases "finalizeModel j ?p r (storage s)")
        case (Inl e)
        with Eu T' Fu Su show ?thesis by (simp add: world_inv_def fields)
      next
        case (Inr st')
        then have "store_inv (AList.update j ?p (trainingProgress s)) st'"
          using store_inv_update_store [OF Su] by (simp add: finalizeModel_def)
        with Inr Ee T' Fe show ?thesis by (simp add: world_inv_def fields)
      qed
    next
      case nv: False
      let ?p = "validating_progress p"
      have E': "events_inv (AList.update j ?p (trainingProgress s)) (emitted s @ [trainingUpdate ?p])"
        by (rule events_inv_step [OF E p])
           (simp_all add: validating_progress_facts id cur_pair_def pair_le_def ev_pair_def)
      have T': "timers_inv (activeTraining s) (AList.update (nextTimer s) (ValidationTimeout j) (timers s))
                  (AList.update j ?p (trainingProgress s)) (nextTimer s + 1)"
        by (rule timers_inv_set_timeout [OF timers_inv_progress [OF T]])
           (simp add: validating_progress_facts)
      have F': "terminal_inv (activeTraining s) (AList.update j ?p (trainingProgress s))
                  (emitted s @ [trainingUpdate ?p])"
        by (rule terminal_inv_emit_other [OF terminal_inv_update_active [OF F act]])
           (simp add: ev_terminal_def validating_progress_facts)
      have S': "store_inv (AList.update j ?p (trainingProgress s)) (storage s)"
        by (rule store_inv_progress [OF S p])
      from E' T' F' S' show ?thesis
        by (simp add: trainingTick_validate [OF p False nv] world_inv_def)
    qed
  qed
qed

lemma world_inv_timeout:
  assumes inv: "world_inv s" and tmo: "map_of (timers s) h = Some (ValidationTimeout j)"
  shows "world_inv (validationDone j (clearInterval h s))"
proof -
  note E = world_invD(1) [OF inv] and T = world_invD(2) [OF inv]
    and F = world_invD(3) [OF inv] and S = world_invD(4) [OF inv]
  note Tc = timers_inv_clear_timeout [OF T tmo]
  show ?thesis
  proof (cases "map_of (trainingProgress s) j")
    case None
    with E Tc F S show ?thesis by (simp add: validationDone_absent world_inv_def)
  next
    case (Some p)
    let ?p = "p\<lparr>status := training\<rparr>"
    from events_inv_modelId [OF E Some] have id: "modelId p = j" .
    have E': "events_inv (AList.update j ?p (trainingProgress s)) (emitted s @ [trainingUpdate ?p])"
      by (rule events_inv_step [OF E Some])
         (simp_all add: id cur_pair_def pair_le_def ev_pair_def)
    have T': "timers_inv (activeTraining s) (AList.delete h (timers s))
                (AList.update j ?p (trainingProgress s)) (nextTimer s)"
      by (rule timers_inv_progress [OF Tc]) simp
    have F': "terminal_inv (activeTraining s) (AList.update j ?p (trainingProgress s))
                (emitted s @ [trainingUpdate ?p])"
      by (rule terminal_inv_emit_other [OF terminal_inv_update_same [OF F Some]])
         (simp_all add: ev_terminal_def cur_pair_def)
    have S': "store_inv (AList.update j ?p (trainingProgress s)) (storage s)"
      by (rule store_inv_progress [OF S Some])
    from E' T' F' S' show ?thesis
      by (simp add: validationDone_fired [OF Some] world_inv_def)
  qed
qed

lemma world_inv_fire:
  assumes inv: "world_inv s"
  shows "world_inv (fire h r s)"
proof (cases "map_of (timers s) h")
  case None
  with inv show ?thesis by (simp add: fire_def)
next
  case (Some task)
  show ?thesis
  proof (cases task)
    case (TrainingInterval j t)
    with Some world_inv_tick [OF inv, of h j t r] show ?thesis by (simp add: fire_def)
  next
    case (ValidationTimeout j)
    with Some world_inv_timeout [OF inv, of h j] show ?thesis by (simp add: fire_def)
  qed
qed

lemma world_inv_stop:
  assumes inv: "world_inv s"
  shows "world_inv (snd (stopTraining j s))"
proof (cases "map_of (activeTraining s) j")
  case None
  with inv show ?thesis by (simp add: stopTraining_inactive)
next
  case (Some h)
  note E = world_invD(1) [OF inv] and T = world_invD(2) [OF inv]
    and F = world_invD(3) [OF inv] and S = world_invD(4) [OF inv]
  from timers_inv_active [OF T Some] obtain t where itv: "map_of (timers s) h = Some (TrainingInterval j t)" ..
  from timers_inv_active_progress [OF T Some] obtain p where p: "map_of (trainingProgress s) j = Some p"
    by blast
  let ?p = "p\<lparr>status := failed\<rparr>"
  from events_inv_modelId [OF E p] have id: "modelId p = j" .
  have E': "events_inv (AList.update j ?p (trainingProgress s)) (emitted s @ [trainingStopped j ?p])"
    by (rule events_inv_step [OF E p])
       (simp_all add: id cur_pair_def pair_le_def ev_pair_def)
  have T': "timers_inv (AList.delete j (activeTraining s)) (AList.delete h (timers s))
              (AList.update j ?p (trainingProgress s)) (nextTimer s)"
    by (rule timers_inv_progress [OF timers_inv_clear_interval [OF T itv]])
       (simp add: look_delete)
  have Fu: "terminal_inv (AList.delete j (activeTraining s)) (AList.update j ?p (trainingProgress s))
              (emitted s)"
    by (rule terminal_inv_update_same [OF terminal_inv_delete [OF F] p]) (simp add: cur_pair_def)
  have F': "terminal_inv (AList.delete j (activeTraining s)) (AList.update j ?p (trainingProgress s))
              (emitted s @ [trainingStopped j ?p])"
    by (rule terminal_inv_emit_terminal [OF Fu, where p = ?p])
       (simp_all add: look_delete look_update ev_pair_def cur_pair_def)
  have S': "store_inv (AList.update j ?p (trainingProgress s)) (storage s)"
    by (rule store_inv_progress [OF S p])
  from E' T' F' S' show ?thesis
    by (simp add: stopTraining_active [OF Some p] world_inv_def)
qed

lemma world_inv_step: "world_inv s \<Longrightarrow> world_inv (step a s)"
  by (cases a) (simp_all add: world_inv_start world_inv_fire world_inv_stop)

lemma world_inv_run: "world_inv s \<Longrightarrow> world_inv (run as s)"
  by (induction as arbitrary: s) (simp_all add: world_inv_step)

lemma world_inv_reachable: "world_inv (run as init_world)"
  by (rule world_inv_run [OF world_inv_init])

lemmas run_defs = cfg2_def cfgA_def draws_def init_world_def startTraining_def createAiModel_def modelData_def
  initialProgress_def simulateTraining_def setTimer_def clearInterval_def trainingTick_def batch_step_def
  validationDone_def stopTraining_def fire_def job_events_def ev_pair_def keys_def InsertAiModel.defs
  AiModel.defs Let_def batchDuration_def finalizeModel_def updateAiModel_def finalUpdate_def apply_update_def
  ev_terminal_def




text \<open>
  C3, the code at the failing input: a job that was started and stopped has status
  \<open>failed\<close> and is still returned by \<open>getAllActiveTraining\<close>, whose filter only
  excludes \<open>completed\<close>.
\<close>

theorem failed_job_stays_listed:
  "map (\<lambda>p. (modelId p, status p)) (getAllActiveTraining (run [Start cfg2 ''m1'', Stop ''m1''] init_world))
     = [(''m1'', failed)]"
  by (simp add: run_defs getAllActiveTraining_def)

section \<open>Stopping a job\<close>

lemma no_interval_after_clear:
  assumes T: "timers_inv ats tm tp nt" and act: "map_of ats j = Some h"
  shows "map_of (AList.delete h tm) h' \<noteq> Some (TrainingInterval j t)"
proof
  assume a: "map_of (AList.delete h tm) h' = Some (TrainingInterval j t)"
  then have h': "h' \<noteq> h" "map_of tm h' = Some (TrainingInterval j t)"
    by (cases "h' = h"; simp add: delete_conv')+
  from timers_inv_interval [OF T h'(2)] act h'(1) show False by simp
qed

text \<open>
  C5: in every state the service can reach, \<open>stopTraining\<close> returns true exactly
  when an interval timer of the job is live. In that case no interval timer of the job
  is live afterwards, the status of the job is \<open>failed\<close>, and one \<open>trainingStopped\<close>
  event has been emitted. When it returns false the state is unchanged, and a second
  call right after the first returns false and changes nothing.
\<close>

theorem stop_true_iff_timer_active:
  "fst (stopTraining j (run as init_world)) =
     (\<exists>h t. map_of (timers (run as init_world)) h = Some (TrainingInterval j t))
   \<and> (fst (stopTraining j (run as init_world)) \<longrightarrow>
        (\<forall>h t. map_of (timers (snd (stopTraining j (run as init_world)))) h \<noteq> Some (TrainingInterval j t))
        \<and> (\<exists>p. getTrainingProgress j (run as init_world) = Some p
               \<and> getTrainingProgress j (snd (stopTraining j (run as init_world))) = Some (p\<lparr>status := failed\<rparr>)
               \<and> emitted (snd (stopTraining j (run as init_world))) =
                   emitted (run as init_world) @ [trainingStopped j (p\<lparr>status := failed\<rparr>)]))
   \<and> (\<not> fst (stopTraining j (run as init_world)) \<longrightarrow>
        snd (stopTraining j (run as init_world)) = run as init_world)
   \<and> stopTraining j (snd (stopTraining j (run as init_world))) =
        (False, snd (stopTraining j (run as init_world)))"
proof -
  let ?s = "run as init_world"
  note inv = world_inv_reachable [of as]
  note T = world_invD(2) [OF inv]
  show ?thesis
  proof (cases "map_of (activeTraining ?s) j")
    case None
    have "\<not> (\<exists>h t. map_of (timers ?s) h = Some (TrainingInterval j t))"
    proof
      assume "\<exists>h t. map_of (timers ?s) h = Some (TrainingInterval j t)"
      then obtain h t where "map_of (timers ?s) h = Some (TrainingInterval j t)" by blast
      from timers_inv_interval [OF T this] None show False by simp
    qed
    with None show ?thesis by (simp add: stopTraining_inactive)
  next
    case (Some h)
    from timers_inv_active [OF T Some] have live: "\<exists>h t. map_of (timers ?s) h = Some (TrainingInterval j t)"
      by blast
    from timers_inv_active_progress [OF T Some] obtain p where p: "map_of (trainingProgress ?s) j = Some p"
      by blast
    note stop = stopTraining_active [OF Some p]
    have gone: "\<forall>h' t. map_of (AList.delete h (timers ?s)) h' \<noteq> Some (TrainingInterval j t)"
      using no_interval_after_clear [OF T Some] by blast
    have again: "stopTraining j (snd (stopTraining j ?s)) = (False, snd (stopTraining j ?s))"
      by (rule stopTraining_inactive) (simp add: stop look_delete)
    from live gone again p show ?thesis
      by (simp add: stop getTrainingProgress_def look_update)
  qed
qed

text \<open>
  C5, witness: a job is started and stopped twice; a stop of a job that was never
  started returns false and changes nothing.
\<close>

theorem stop_true_iff_timer_active_witness:
  "fst (stopTraining ''m1'' (run [Start cfg2 ''m1''] init_world))
   \<and> map_of (timers (run [Start cfg2 ''m1''] init_world)) 0 = Some (TrainingInterval ''m1'' ''CNN'')
   \<and> timers (snd (stopTraining ''m1'' (run [Start cfg2 ''m1''] init_world))) = []
   \<and> map (status \<circ> ev_progress) (emitted (snd (stopTraining ''m1'' (run [Start cfg2 ''m1''] init_world))))
        = [training, failed]
   \<and> stopTraining ''m1'' (snd (stopTraining ''m1'' (run [Start cfg2 ''m1''] init_world))) =
        (False, snd (stopTraining ''m1'' (run [Start cfg2 ''m1''] init_world)))
   \<and> \<not> fst (stopTraining ''m2'' (run [Start cfg2 ''m1''] init_world))
   \<and> snd (stopTraining ''m2'' (run [Start cfg2 ''m1''] init_world)) = run [Start cfg2 ''m1''] init_world"
proof -
  have a: "fst (stopTraining ''m1'' (run [Start cfg2 ''m1''] init_world))"
    by (simp add: run_defs)
  have b: "map_of (timers (run [Start cfg2 ''m1''] init_world)) 0 = Some (TrainingInterval ''m1'' ''CNN'')"
    by (simp add: run_defs)
  have c: "timers (snd (stopTraining ''m1'' (run [Start cfg2 ''m1''] init_world))) = []"
    by (simp add: run_defs)
  have d: "map (status \<circ> ev_progress) (emitted (snd (stopTraining ''m1'' (run [Start cfg2 ''m1''] init_world))))
        = [training, failed]"
    by (simp add: run_defs)
  have e: "\<not> fst (stopTraining ''m2'' (run [Start cfg2 ''m1''] init_world))"
    by (simp add: run_defs)
  from stop_true_iff_timer_active [of "''m1''" "[Start cfg2 ''m1'']"]
       stop_true_iff_timer_active [of "''m2''" "[Start cfg2 ''m1'']"] a b c d e
  show ?thesis by simp
qed

section \<open>Finalization\<close>

lemma apply_final_update:
  "apply_update (finalUpdate p r) m =
     m\<lparr>accuracy_model := accuracy p,
       precision := finalPrecision p r,
       recall := finalRecall p r,
       f1Score := finalF1 p r,
       isActive := True\<rparr>"
  by (simp add: apply_update_def finalUpdate_def)

lemma finalizeModel_found:
  assumes "map_of st j = Some m"
  shows "finalizeModel j p r st = Inr (AList.update j (apply_update (finalUpdate p r) m) st)"
  using assms by (simp add: finalizeModel_def updateAiModel_def)

lemma finalF1_value:
  "finalF1 p r =
     (if finalPrecision p r + finalRecall p r = 0 then None
      else Some (2 * (finalPrecision p r * finalRecall p r) / (finalPrecision p r + finalRecall p r)))"
  by (simp add: finalF1_def js_div_def)

lemma final_sum_zero_iff:
  assumes "unit_draw (rnd_precision r)" and "unit_draw (rnd_recall r)"
  shows "finalPrecision p r + finalRecall p r = 0 \<longleftrightarrow> accuracy p = 0"
proof -
  have "finalPrecision p r + finalRecall p r
          = accuracy p * ((0.95 + rnd_precision r * 0.05) + (0.93 + rnd_recall r * 0.07))"
    by (simp add: finalPrecision_def finalRecall_def algebra_simps)
  moreover have "(0.95 + rnd_precision r * 0.05) + (0.93 + rnd_recall r * 0.07) \<noteq> 0"
  proof -
    from assms have "0 \<le> rnd_precision r * 0.05" "0 \<le> rnd_recall r * 0.07"
      by (simp_all add: unit_draw_def)
    then have "0 < (0.95 + rnd_precision r * 0.05) + (0.93 + rnd_recall r * 0.07)"
      by (simp add: add_pos_nonneg add_nonneg_pos)
    then show ?thesis by simp
  qed
  ultimately show ?thesis by simp
qed

text \<open>
  C9: the interval callback in its completion branch (the last batch of the last epoch
  is done) with the model record present. The record afterwards is the record before
  with exactly these fields set: accuracy to the accuracy of the job, precision to
  accuracy times a factor in \<open>[0.95, 1)\<close>, recall to accuracy times a factor in
  \<open>[0.93, 1)\<close>, the F1 score to \<open>2 * precision * recall / (precision + recall)\<close> (no
  number when the accuracy is 0), and \<open>isActive\<close> to true. No other record changes, and
  \<open>trainingComplete\<close> is emitted.
\<close>

theorem completion_persists_final_metrics:
  assumes itv: "map_of (timers s) h = Some (TrainingInterval j t)"
    and p: "map_of (trainingProgress s) j = Some p"
    and last_batch: "\<not> currentBatch p < totalBatches p"
    and last_epoch: "totalEpochs p \<le> epoch p + 1"
    and m: "map_of (storage s) j = Some m"
    and u1: "unit_draw (rnd_precision r)" and u2: "unit_draw (rnd_recall r)"
  shows "0.95 \<le> 0.95 + rnd_precision r * 0.05 \<and> 0.95 + rnd_precision r * 0.05 < 1
     \<and> 0.93 \<le> 0.93 + rnd_recall r * 0.07 \<and> 0.93 + rnd_recall r * 0.07 < 1
     \<and> map_of (storage (fire h r s)) j =
         Some (m\<lparr>accuracy_model := accuracy p,
                 precision := accuracy p * (0.95 + rnd_precision r * 0.05),
                 recall := accuracy p * (0.93 + rnd_recall r * 0.07),
                 f1Score :=
                   (if accuracy p = 0 then None
                    else Some (2 * (accuracy p * (0.95 + rnd_precision r * 0.05)
                                    * (accuracy p * (0.93 + rnd_recall r * 0.07)))
                               / (accuracy p * (0.95 + rnd_precision r * 0.05)
                                  + accuracy p * (0.93 + rnd_recall r * 0.07)))),
                 isActive := True\<rparr>)
     \<and> (\<forall>k. k \<noteq> j \<longrightarrow> map_of (storage (fire h r s)) k = map_of (storage s) k)
     \<and> (\<exists>p'. status p' = completed \<and> accuracy p' = accuracy p
            \<and> emitted (fire h r s) = emitted s @ [trainingComplete j p'])"
proof -
  let ?p = "completed_progress p"
  have f: "fire h r s = trainingTick j t h r s"
    using itv by (simp add: fire_def)
  note fields = trainingTick_complete [OF p last_batch last_epoch, of t h r]
  note fin = finalizeModel_found [OF m, of ?p r]
  have st: "storage (fire h r s) = AList.update j (apply_update (finalUpdate ?p r) m) (storage s)"
    by (simp add: f fields fin)
  have em: "emitted (fire h r s) = emitted s @ [trainingComplete j ?p]"
    by (simp add: f fields fin)
  have ranges: "0.95 \<le> 0.95 + rnd_precision r * 0.05 \<and> 0.95 + rnd_precision r * 0.05 < 1
     \<and> 0.93 \<le> 0.93 + rnd_recall r * 0.07 \<and> 0.93 + rnd_recall r * 0.07 < 1"
    using u1 u2 by (simp add: unit_draw_def power2_eq_square field_simps)
  have f1: "finalF1 ?p r =
      (if accuracy p = 0 then None
       else Some (2 * (accuracy p * (0.95 + rnd_precision r * 0.05)
                       * (accuracy p * (0.93 + rnd_recall r * 0.07)))
                  / (accuracy p * (0.95 + rnd_precision r * 0.05)
                     + accuracy p * (0.93 + rnd_recall r * 0.07))))"
    using final_sum_zero_iff [OF u1 u2, of ?p]
    by (simp only: finalF1_value finalPrecision_def finalRecall_def completed_progress_facts)
  have rec: "apply_update (finalUpdate ?p r) m =
      m\<lparr>accuracy_model := accuracy p,
        precision := accuracy p * (0.95 + rnd_precision r * 0.05),
        recall := accuracy p * (0.93 + rnd_recall r * 0.07),
        f1Score :=
          (if accuracy p = 0 then None
           else Some (2 * (accuracy p * (0.95 + rnd_precision r * 0.05)
                           * (accuracy p * (0.93 + rnd_recall r * 0.07)))
                      / (accuracy p * (0.95 + rnd_precision r * 0.05)
                         + accuracy p * (0.93 + rnd_recall r * 0.07)))),
        isActive := True\<rparr>"
    by (simp only: apply_final_update f1 finalPrecision_def finalRecall_def completed_progress_facts)
  have a: "map_of (storage (fire h r s)) j = Some (apply_update (finalUpdate ?p r) m)"
    by (simp add: st look_update)
  have b: "\<forall>k. k \<noteq> j \<longrightarrow> map_of (storage (fire h r s)) k = map_of (storage s) k"
    by (simp add: st update_conv')
  have c: "\<exists>p'. status p' = completed \<and> accuracy p' = accuracy p
            \<and> emitted (fire h r s) = emitted s @ [trainingComplete j p']"
    using em completed_progress_facts by blast
  from ranges a b c show ?thesis by (simp only: rec)
qed

lemma scenarioA_timer:
  "map_of (timers (run [Start cfgA ''m1'', Fire 0 draws] init_world)) 0 = Some (TrainingInterval ''m1'' ''CNN'')"
  by (simp add: run_defs)

lemma scenarioA_progress:
  "map_of (trainingProgress (run [Start cfgA ''m1'', Fire 0 draws] init_world)) ''m1''
     = Some (batch_step (started cfgA ''m1'') ''CNN'' draws)"
  by (simp add: init_world_def startTraining_fields fire_def trainingTick_def look_update
        started_def initialProgress_def cfgA_def keys_def)

lemma scenarioA_storage:
  "map_of (storage (run [Start cfgA ''m1'', Fire 0 draws] init_world)) ''m1''
     = Some (fst (createAiModel (modelData cfgA) ''m1'' []))"
  by (simp add: init_world_def startTraining_fields fire_def trainingTick_def look_update
        started_def initialProgress_def cfgA_def createAiModel_def keys_def)

text \<open>
  C9, witness: scenario A of the specification. One epoch of one batch, all draws 0.5:
  after the batch tick, the next tick completes the job.
\<close>

theorem completion_persists_final_metrics_witness:
  "map_of (timers (run [Start cfgA ''m1'', Fire 0 draws] init_world)) 0 = Some (TrainingInterval ''m1'' ''CNN'')
   \<and> totalEpochs (batch_step (started cfgA ''m1'') ''CNN'' draws)
        \<le> epoch (batch_step (started cfgA ''m1'') ''CNN'' draws) + 1
   \<and> unit_draw (rnd_precision draws) \<and> unit_draw (rnd_recall draws)
   \<and> map_of (storage (fire 0 draws (run [Start cfgA ''m1'', Fire 0 draws] init_world))) ''m1'' =
       Some ((fst (createAiModel (modelData cfgA) ''m1'' []))
         \<lparr>accuracy_model := accuracy (batch_step (started cfgA ''m1'') ''CNN'' draws),
           precision := accuracy (batch_step (started cfgA ''m1'') ''CNN'' draws) * (0.95 + rnd_precision draws * 0.05),
           recall := accuracy (batch_step (started cfgA ''m1'') ''CNN'' draws) * (0.93 + rnd_recall draws * 0.07),
           f1Score :=
             (if accuracy (batch_step (started cfgA ''m1'') ''CNN'' draws) = 0 then None
              else Some (2 * (accuracy (batch_step (started cfgA ''m1'') ''CNN'' draws) * (0.95 + rnd_precision draws * 0.05)
                              * (accuracy (batch_step (started cfgA ''m1'') ''CNN'' draws) * (0.93 + rnd_recall draws * 0.07)))
                         / (accuracy (batch_step (started cfgA ''m1'') ''CNN'' draws) * (0.95 + rnd_precision draws * 0.05)
                            + accuracy (batch_step (started cfgA ''m1'') ''CNN'' draws) * (0.93 + rnd_recall draws * 0.07)))),
           isActive := True\<rparr>)"
proof -
  have b: "\<not> currentBatch (batch_step (started cfgA ''m1'') ''CNN'' draws)
             < totalBatches (batch_step (started cfgA ''m1'') ''CNN'' draws)"
    by (simp add: batch_step_def started_def initialProgress_def cfgA_def Let_def)
  have e: "totalEpochs (batch_step (started cfgA ''m1'') ''CNN'' draws)
        \<le> epoch (batch_step (started cfgA ''m1'') ''CNN'' draws) + 1"
    by (simp add: batch_step_def started_def initialProgress_def cfgA_def Let_def)
  have u: "unit_draw (rnd_precision draws)" "unit_draw (rnd_recall draws)"
    by (simp_all add: draws_def unit_draw_def)
  from completion_persists_final_metrics [OF scenarioA_timer scenarioA_progress b e scenarioA_storage u] scenarioA_timer e u
  show ?thesis by simp
qed

section \<open>The model store\<close>

lemma stopTraining_storage: "storage (snd (stopTraining j s)) = storage s"
  by (simp add: stopTraining_def clearInterval_def Let_def split: option.splits)

lemma stopTraining_activeTraining:
  "map_of (activeTraining (snd (stopTraining j s))) k =
     (if k = j then None else map_of (activeTraining s) k)"
  by (simp add: stopTraining_def clearInterval_def Let_def delete_conv' split: option.splits)

lemma validationDone_storage: "storage (validationDone j (clearInterval h s)) = storage s"
  by (simp add: validationDone_def clearInterval_def split: option.splits)

lemma validationDone_activeTraining:
  "activeTraining (validationDone j (clearInterval h s)) = activeTraining s"
  by (simp add: validationDone_def clearInterval_def split: option.splits)

lemma updateAiModel_other:
  "updateAiModel j u st = Inr st' \<Longrightarrow> k \<noteq> j \<Longrightarrow> map_of st' k = map_of st k"
  by (auto simp: updateAiModel_def update_conv' split: option.splits)

lemma trainingTick_storage_change:
  "map_of (storage (trainingTick j t h r s)) k = map_of (storage s) k
   \<or> (k = j \<and> (\<exists>p. status p = completed
         \<and> emitted (trainingTick j t h r s) = emitted s @ [trainingComplete j p]))"
proof (cases "map_of (trainingProgress s) j")
  case None
  then show ?thesis by (simp add: trainingTick_def)
next
  case (Some p)
  show ?thesis
  proof (cases "currentBatch p < totalBatches p")
    case True
    then show ?thesis by (simp add: trainingTick_batch [OF Some])
  next
    case False
    show ?thesis
    proof (cases "totalEpochs p \<le> epoch p + 1")
      case nv: False
      then show ?thesis by (simp add: trainingTick_validate [OF Some False])
    next
      case True
      note fields = trainingTick_complete [OF Some False True, of t h r]
      show ?thesis
      proof (cases "finalizeModel j (completed_progress p) r (storage s)")
        case (Inl e)
        then show ?thesis by (simp add: fields)
      next
        case (Inr st')
        show ?thesis
        proof (cases "k = j")
          case True
          have "status (completed_progress p) = completed" by (simp add: completed_progress_facts)
          with Inr True show ?thesis by (auto simp: fields)
        next
          case False
          from Inr have "updateAiModel j (finalUpdate (completed_progress p) r) (storage s) = Inr st'"
            by (simp add: finalizeModel_def)
          from updateAiModel_other [OF this False] Inr show ?thesis by (simp add: fields)
        qed
      qed
    qed
  qed
qed

lemma trainingTick_activeTraining:
  "k \<noteq> j \<Longrightarrow> map_of (activeTraining (trainingTick j t h r s)) k = map_of (activeTraining s) k"
proof (cases "map_of (trainingProgress s) j")
  case None
  then show ?thesis by (simp add: trainingTick_def)
next
  case (Some p)
  assume k: "k \<noteq> j"
  show ?thesis
  proof (cases "currentBatch p < totalBatches p")
    case True
    then show ?thesis by (simp add: trainingTick_batch [OF Some])
  next
    case False
    show ?thesis
    proof (cases "totalEpochs p \<le> epoch p + 1")
      case nv: False
      then show ?thesis by (simp add: trainingTick_validate [OF Some False])
    next
      case True
      with k show ?thesis by (simp add: trainingTick_complete [OF Some False True] delete_conv')
    qed
  qed
qed

lemma startTraining_storage_other:
  "k \<noteq> j \<Longrightarrow> map_of (storage (snd (startTraining cfg j s))) k = map_of (storage s) k"
  by (simp add: startTraining_fields createAiModel_def update_conv')

lemma startTraining_record:
  "map_of (storage (snd (startTraining cfg j s))) j = Some (fst (createAiModel (modelData cfg) j (storage s)))"
  by (simp add: startTraining_fields createAiModel_def update_conv')

lemma created_record_pending:
  "accuracy_model (fst (createAiModel (modelData cfg) j st)) = 0"
  "precision (fst (createAiModel (modelData cfg) j st)) = 0"
  "recall (fst (createAiModel (modelData cfg) j st)) = 0"
  "f1Score (fst (createAiModel (modelData cfg) j st)) = Some 0"
  "isActive (fst (createAiModel (modelData cfg) j st)) = False"
  by (simp_all add: createAiModel_def modelData_def InsertAiModel.defs AiModel.defs)

lemma step_storage_change:
  "map_of (storage (step a s)) k = map_of (storage s) k
   \<or> (\<exists>cfg. a = Start cfg k)
   \<or> (\<exists>p. status p = completed \<and> emitted (step a s) = emitted s @ [trainingComplete k p])"
proof (cases a)
  case (Start cfg j)
  then show ?thesis
    by (cases "k = j") (simp_all add: startTraining_storage_other)
next
  case (Fire h r)
  show ?thesis
  proof (cases "map_of (timers s) h")
    case None
    with Fire show ?thesis by (simp add: fire_def)
  next
    case (Some task)
    show ?thesis
    proof (cases task)
      case (TrainingInterval j t)
      with Fire Some trainingTick_storage_change [of j t h r s k] show ?thesis
        by (auto simp: fire_def)
    next
      case (ValidationTimeout j)
      with Fire Some show ?thesis by (simp add: fire_def validationDone_storage)
    qed
  qed
next
  case (Stop j)
  then show ?thesis by (simp add: stopTraining_storage)
qed

lemma frozen_step:
  assumes inv: "world_inv s" and idle: "map_of (activeTraining s) j = None"
    and m: "map_of (storage s) j = Some m"
  shows "map_of (activeTraining (step a s)) j = None \<and> map_of (storage (step a s)) j = Some m"
proof (cases a)
  case (Start cfg j')
  show ?thesis
  proof (cases "j' \<in> keys (storage s)")
    case True
    with Start idle m show ?thesis by simp
  next
    case False
    from m have "j \<in> keys (storage s)" by (auto simp: keys_def dest: map_of_SomeD intro: rev_image_eqI)
    with False have "j \<noteq> j'" by auto
    with Start False idle m startTraining_storage_other [of j j' cfg s] show ?thesis
      by (simp add: startTraining_fields(2) update_conv')
  qed
next
  case (Fire h r)
  show ?thesis
  proof (cases "map_of (timers s) h")
    case None
    with Fire idle m show ?thesis by (simp add: fire_def)
  next
    case (Some task)
    show ?thesis
    proof (cases task)
      case (TrainingInterval j' t)
      from timers_inv_interval [OF world_invD(2) [OF inv]] Some TrainingInterval
      have "map_of (activeTraining s) j' = Some h" by simp
      with idle have ne: "j \<noteq> j'" by auto
      with trainingTick_storage_change [of j' t h r s j] m
      have "map_of (storage (trainingTick j' t h r s)) j = Some m" by auto
      with Fire Some TrainingInterval idle trainingTick_activeTraining [OF ne, of t h r s]
      show ?thesis by (simp add: fire_def)
    next
      case (ValidationTimeout j')
      with Fire Some idle m show ?thesis
        by (simp add: fire_def validationDone_storage validationDone_activeTraining)
    qed
  qed
next
  case (Stop j')
  with idle m show ?thesis by (simp add: stopTraining_storage stopTraining_activeTraining)
qed

lemma frozen_run:
  assumes "world_inv s" and "map_of (activeTraining s) j = None" and "map_of (storage s) j = Some m"
  shows "map_of (storage (run bs s)) j = Some m"
  using assms
proof (induction bs arbitrary: s)
  case Nil
  then show ?case by simp
next
  case (Cons a bs)
  from frozen_step [OF Cons.prems, of a] world_inv_step [OF Cons.prems(1), of a]
  show ?case by (simp add: Cons.IH)
qed

text \<open>
  C10: \<open>stopTraining\<close> leaves the store as it is. The record that \<open>startTraining\<close>
  creates has zero metrics and is not active. Once a job with a record has been
  stopped, its record is the same after any further run of the service. And a single
  step changes the record stored under \<open>k\<close> only when it is the start that creates
  it or the tick that emits \<open>trainingComplete\<close> for \<open>k\<close>.
\<close>

theorem stop_leaves_model_record:
  "storage (snd (stopTraining j s)) = storage s
   \<and> (\<exists>m. map_of (storage (snd (startTraining cfg j s))) j = Some m
          \<and> accuracy_model m = 0 \<and> precision m = 0 \<and> recall m = 0 \<and> f1Score m = Some 0
          \<and> isActive m = False)
   \<and> (map_of (storage (run as init_world)) j \<noteq> None \<longrightarrow>
        map_of (storage (run bs (snd (stopTraining j (run as init_world))))) j
          = map_of (storage (run as init_world)) j)
   \<and> (\<forall>a k. map_of (storage (step a s)) k = map_of (storage s) k
          \<or> (\<exists>cfg. a = Start cfg k)
          \<or> (\<exists>p. status p = completed \<and> emitted (step a s) = emitted s @ [trainingComplete k p]))"
proof -
  let ?s = "run as init_world"
  have c: "map_of (storage (run bs (snd (stopTraining j ?s)))) j = map_of (storage ?s) j"
    if "map_of (storage ?s) j \<noteq> None"
  proof -
    from that obtain m where m: "map_of (storage ?s) j = Some m" by blast
    have inv: "world_inv (snd (stopTraining j ?s))"
      by (rule world_inv_stop [OF world_inv_reachable])
    have idle: "map_of (activeTraining (snd (stopTraining j ?s))) j = None"
      by (simp add: stopTraining_activeTraining)
    from m have "map_of (storage (snd (stopTraining j ?s))) j = Some m"
      by (simp add: stopTraining_storage)
    from frozen_run [OF inv idle this] m show ?thesis by simp
  qed
  have b: "\<exists>m. map_of (storage (snd (startTraining cfg j s))) j = Some m
          \<and> accuracy_model m = 0 \<and> precision m = 0 \<and> recall m = 0 \<and> f1Score m = Some 0
          \<and> isActive m = False"
    by (simp add: startTraining_record created_record_pending)
  from b c step_storage_change show ?thesis
    by (simp add: stopTraining_storage)
qed

text \<open>
  C10, witness: a job is stopped during its validation phase; the pending timeout
  fires and the cleared interval does not; the record is the one created at the start.
\<close>

theorem stop_leaves_model_record_witness:
  "map_of (storage (run [Start cfg2 ''m1'', Fire 0 draws, Fire 0 draws] init_world)) ''m1'' \<noteq> None
   \<and> map_of (storage (run [Fire 1 draws, Fire 0 draws, Fire 0 draws]
        (snd (stopTraining ''m1'' (run [Start cfg2 ''m1'', Fire 0 draws, Fire 0 draws] init_world))))) ''m1''
      = Some (fst (createAiModel (modelData cfg2) ''m1'' []))
   \<and> isActive (fst (createAiModel (modelData cfg2) ''m1'' [])) = False"
proof -
  have a: "map_of (storage (run [Start cfg2 ''m1'', Fire 0 draws, Fire 0 draws] init_world)) ''m1''
             = Some (fst (createAiModel (modelData cfg2) ''m1'' []))"
    by (simp add: init_world_def startTraining_fields fire_def trainingTick_def look_update
        started_def initialProgress_def cfg2_def createAiModel_def keys_def batch_step_def Let_def
        setTimer_def)
  from stop_leaves_model_record [of "''m1''" "run [Start cfg2 ''m1'', Fire 0 draws, Fire 0 draws] init_world" cfg2
              "[Start cfg2 ''m1'', Fire 0 draws, Fire 0 draws]" "[Fire 1 draws, Fire 0 draws, Fire 0 draws]"] a
  show ?thesis by (simp add: created_record_pending)
qed

end
